theory Spec2Isabelle
  imports Complex_Main "HOL-Library.Char_ord" "HOL-Library.List_Lexorder" "HOL-Library.AList"
begin

section \<open>Vehicle price estimation: preprocessing, training, persistence, inference\<close>

text \<open>
  A shallow embedding of \<^verbatim>\<open>src/preprocessing.py\<close> and \<^verbatim>\<open>src/model.py\<close>.

  Conventions of the model.
  \<^item> A DataFrame over the five columns is a list of rows, in index order.
  \<^item> A Python exception is a value \<open>Inl e\<close> of a sum type; a normal return is \<open>Inr v\<close>.
  \<^item> Python floats are real numbers; \<open>float("inf")\<close> is the value \<open>None\<close> of
    \<open>real option\<close>. Rounding error, overflow and NaN are outside the model.
  \<^item> Python integers are unbounded integers.
  \<^item> The fitted regressors of scikit-learn are opaque: fitting and predicting are
    parameters (\<open>fit\<close>, \<open>predict\<close>), and so is the permutation drawn by
    \<^verbatim>\<open>train_test_split\<close> for \<^verbatim>\<open>random_state=42\<close> (\<open>perm\<close>).
  \<^item> The file system is a map from path names to directories and files. A file holds
    the complete pickle of an object, or nothing (as between \<^verbatim>\<open>open(..., "wb")\<close> and
    \<^verbatim>\<open>pickle.dump\<close>), or bytes that \<^verbatim>\<open>pickle.load\<close> rejects. Path names are
    compared as written, except that a trailing slash is resolved to the directory.
\<close>

subsection \<open>Errors\<close>

datatype message =
    UnknownCategory string string "string list"
  | UnseenLabels
  | InvalidLiteral string
  | EmptyTrainSet nat

datatype error =
    ValueError message
  | FileNotFoundError string
  | FileExistsError string
  | IsADirectoryError string
  | NotADirectoryError string
  | EOFError
  | UnpicklingError
  | KeyError string
  | TypeError
  | AttributeError

subsection \<open>Rows\<close>

text \<open>
  A cell of the raw frame: null (\<^verbatim>\<open>None\<close>, NaN or an absent key), an integer, a float
  or a string. The three categorical columns hold a string or null.
\<close>

datatype cell = Null | IntV int | FloatV real | StrV string

record ('n, 's) row =
  year :: 'n
  brand :: 's
  model :: 's
  package :: 's
  price :: 'n

type_synonym raw_row = "(cell, string option) row"
type_synonym car = "(int, string) row"
type_synonym encoded = "(int, nat) row"
type_synonym features = "int \<times> nat \<times> nat \<times> nat"

definition features_of :: "encoded \<Rightarrow> features" where
  "features_of r = (year r, brand r, model r, package r)"

subsection \<open>LabelEncoder\<close>

text \<open>
  \<^verbatim>\<open>LabelEncoder.fit\<close> stores the sorted distinct values in \<^verbatim>\<open>classes_\<close>;
  \<^verbatim>\<open>transform\<close> maps a value to its position there and raises \<^verbatim>\<open>ValueError\<close>
  ("y contains previously unseen labels") on any other value;
  \<^verbatim>\<open>inverse_transform\<close> reads \<^verbatim>\<open>classes_\<close> at the code and raises
  \<^verbatim>\<open>ValueError\<close> on a code out of range.
\<close>

datatype label_encoder = LabelEncoder (classes: "string list")

fun index_of :: "'a \<Rightarrow> 'a list \<Rightarrow> nat option" where
  "index_of v [] = None"
| "index_of v (x # xs) =
     (if x = v then Some 0 else map_option Suc (index_of v xs))"

definition fit_encoder :: "string list \<Rightarrow> label_encoder" where
  "fit_encoder vs = LabelEncoder (sort (remdups vs))"

definition transform1 :: "label_encoder \<Rightarrow> string \<Rightarrow> error + nat" where
  "transform1 le v =
     (case index_of v (classes le) of
        None \<Rightarrow> Inl (ValueError UnseenLabels)
      | Some i \<Rightarrow> Inr i)"

fun transform :: "label_encoder \<Rightarrow> string list \<Rightarrow> error + nat list" where
  "transform le [] = Inr []"
| "transform le (v # vs) =
     (case transform1 le v of
        Inl e \<Rightarrow> Inl e
      | Inr c \<Rightarrow> (case transform le vs of Inl e \<Rightarrow> Inl e | Inr cs \<Rightarrow> Inr (c # cs)))"

definition inverse_transform1 :: "label_encoder \<Rightarrow> nat \<Rightarrow> error + string" where
  "inverse_transform1 le c =
     (if c < length (classes le) then Inr (classes le ! c)
      else Inl (ValueError UnseenLabels))"

fun inverse_transform :: "label_encoder \<Rightarrow> nat list \<Rightarrow> error + string list" where
  "inverse_transform le [] = Inr []"
| "inverse_transform le (c # cs) =
     (case inverse_transform1 le c of
        Inl e \<Rightarrow> Inl e
      | Inr v \<Rightarrow>
          (case inverse_transform le cs of Inl e \<Rightarrow> Inl e | Inr vs \<Rightarrow> Inr (v # vs)))"

definition fit_transform :: "string list \<Rightarrow> label_encoder \<times> (error + nat list)" where
  "fit_transform vs = (let le = fit_encoder vs in (le, transform le vs))"

type_synonym encoders = "(string \<times> label_encoder) list"

subsection \<open>encode_features\<close>

definition set_codes :: "car \<Rightarrow> nat \<Rightarrow> nat \<Rightarrow> nat \<Rightarrow> encoded" where
  "set_codes r b m p =
     \<lparr>year = year r, brand = b, model = m, package = p, price = price r\<rparr>"

fun zip_codes :: "car list \<Rightarrow> nat list \<Rightarrow> nat list \<Rightarrow> nat list \<Rightarrow> encoded list" where
  "zip_codes (r # rs) (b # bs) (m # ms) (p # ps) = set_codes r b m p # zip_codes rs bs ms ps"
| "zip_codes _ _ _ _ = []"

definition encode_features :: "car list \<Rightarrow> error + (encoded list \<times> encoders)" where
  "encode_features df =
     (let (le_b, r_b) = fit_transform (map brand df);
          (le_m, r_m) = fit_transform (map model df);
          (le_p, r_p) = fit_transform (map package df)
      in case r_b of Inl e \<Rightarrow> Inl e | Inr bs \<Rightarrow>
         (case r_m of Inl e \<Rightarrow> Inl e | Inr ms \<Rightarrow>
         (case r_p of Inl e \<Rightarrow> Inl e | Inr ps \<Rightarrow>
            Inr (zip_codes df bs ms ps,
                 AList.update ''package'' le_p
                   (AList.update ''model'' le_m
                     (AList.update ''brand'' le_b []))))))"

subsection \<open>Paths and the model store\<close>

definition join2 :: "string \<Rightarrow> string \<Rightarrow> string" where
  "join2 a b =
     (if b \<noteq> [] \<and> hd b = CHR ''/'' then b
      else if a = [] \<or> last a = CHR ''/'' then a @ b
      else a @ ''/'' @ b)"

definition dirname :: "string \<Rightarrow> string" where
  "dirname p =
     (let head = rev (dropWhile (\<lambda>c. c \<noteq> CHR ''/'') (rev p))
      in if head \<noteq> [] \<and> \<not> list_all (\<lambda>c. c = CHR ''/'') head
         then rev (dropWhile (\<lambda>c. c = CHR ''/'') (rev head))
         else head)"

definition MODEL_PATH :: "string \<Rightarrow> string" where
  "MODEL_PATH base_dir = join2 (join2 base_dir ''output'') ''model.pkl''"

datatype 'm obj = ModelObj 'm | EncodersObj encoders

datatype 'm content = Empty | Corrupt | Pickled "'m obj"

datatype 'm node = Dir | File "'m content"

type_synonym 'm fs = "string \<Rightarrow> 'm node option"

definition path_or_default :: "string \<Rightarrow> string option \<Rightarrow> string" where
  "path_or_default base_dir path =
     (case path of
        None \<Rightarrow> MODEL_PATH base_dir
      | Some p \<Rightarrow> if p = [] then MODEL_PATH base_dir else p)"

definition encoder_path_of :: "string \<Rightarrow> string" where
  "encoder_path_of model_path = join2 (dirname model_path) ''encoders.pkl''"

text \<open>A path that ends in a slash resolves to the directory it names.\<close>

definition norm_path :: "string \<Rightarrow> string" where
  "norm_path p = (if p \<noteq> [] \<and> last p = CHR ''/'' then dirname p else p)"

text \<open>
  The directories above \<open>d\<close>, nearest first; the first argument bounds the number of
  steps (the length of \<open>d\<close> is enough, as every step shortens the path).
\<close>

fun ancestors :: "nat \<Rightarrow> string \<Rightarrow> string list" where
  "ancestors 0 d = []"
| "ancestors (Suc n) d =
     (let up = dirname d in if up = [] \<or> up = d then [] else up # ancestors n up)"

definition is_file :: "'m fs \<Rightarrow> string \<Rightarrow> bool" where
  "is_file files p = (case files p of Some (File _) \<Rightarrow> True | _ \<Rightarrow> False)"

text \<open>
  \<^verbatim>\<open>os.makedirs(d, exist_ok=True)\<close>: the empty name is \<^verbatim>\<open>FileNotFoundError\<close>; an
  existing directory is left alone; a regular file at \<open>d\<close> is
  \<^verbatim>\<open>FileExistsError\<close>, one above \<open>d\<close> is \<^verbatim>\<open>NotADirectoryError\<close>; otherwise
  \<open>d\<close> and the directories above it exist afterwards.
\<close>

definition makedirs :: "'m fs \<Rightarrow> string \<Rightarrow> error + 'm fs" where
  "makedirs files d =
     (if d = [] then Inl (FileNotFoundError [])
      else case files d of
             Some (File _) \<Rightarrow> Inl (FileExistsError d)
           | Some Dir \<Rightarrow> Inr files
           | None \<Rightarrow>
               if list_ex (is_file files) (ancestors (length d) d)
               then Inl (NotADirectoryError d)
               else Inr (fold (\<lambda>a f. f(a \<mapsto> Dir)) (d # ancestors (length d) d) files))"

text \<open>
  \<^verbatim>\<open>open(p, "wb")\<close>: a directory is \<^verbatim>\<open>IsADirectoryError\<close>; otherwise the file
  exists afterwards and is empty. Whether the directory of \<open>p\<close> exists is not
  looked up here: \<^verbatim>\<open>save_model\<close> calls \<^verbatim>\<open>makedirs\<close> on the directory of the
  model path before it opens the files.
\<close>

definition open_write :: "'m fs \<Rightarrow> string \<Rightarrow> error + 'm fs" where
  "open_write files p =
     (case files (norm_path p) of
        Some Dir \<Rightarrow> Inl (IsADirectoryError p)
      | Some (File _) \<Rightarrow>
          if norm_path p = p then Inr (files(p \<mapsto> File Empty))
          else Inl (NotADirectoryError p)
      | None \<Rightarrow>
          if norm_path p = p then Inr (files(p \<mapsto> File Empty))
          else Inl (IsADirectoryError p))"

definition dump :: "'m fs \<Rightarrow> string \<Rightarrow> 'm obj \<Rightarrow> 'm fs" where
  "dump files p ob = files(p \<mapsto> File (Pickled ob))"

text \<open>
  \<^verbatim>\<open>open(p, "rb")\<close> followed by \<^verbatim>\<open>pickle.load\<close>: a missing file is
  \<^verbatim>\<open>FileNotFoundError\<close>, a directory \<^verbatim>\<open>IsADirectoryError\<close>, an empty file
  \<^verbatim>\<open>EOFError\<close>; \<^verbatim>\<open>UnpicklingError\<close> stands for whatever \<^verbatim>\<open>pickle.load\<close>
  raises on bytes it rejects.
\<close>

definition read_pickle :: "'m fs \<Rightarrow> string \<Rightarrow> error + 'm obj" where
  "read_pickle files p =
     (case files (norm_path p) of
        None \<Rightarrow> Inl (FileNotFoundError p)
      | Some Dir \<Rightarrow> Inl (IsADirectoryError p)
      | Some (File c) \<Rightarrow>
          if norm_path p = p
          then (case c of
                  Empty \<Rightarrow> Inl EOFError
                | Corrupt \<Rightarrow> Inl UnpicklingError
                | Pickled ob \<Rightarrow> Inr ob)
          else Inl (NotADirectoryError p))"

text \<open>
  \<^verbatim>\<open>save_model\<close> in its two halves: \<^verbatim>\<open>makedirs\<close> and the \<^verbatim>\<open>with\<close> block
  that writes the model file, then the \<^verbatim>\<open>with\<close> block that writes the encoders
  file.
\<close>

definition save_model_file :: "'m fs \<Rightarrow> string \<Rightarrow> 'm obj \<Rightarrow> error + 'm fs" where
  "save_model_file files model_path mo =
     (case makedirs files (dirname model_path) of
        Inl e \<Rightarrow> Inl e
      | Inr files0 \<Rightarrow>
          (case open_write files0 model_path of
             Inl e \<Rightarrow> Inl e
           | Inr files1 \<Rightarrow> Inr (dump files1 model_path mo)))"

definition save_encoders_file :: "'m fs \<Rightarrow> string \<Rightarrow> 'm obj \<Rightarrow> error + 'm fs" where
  "save_encoders_file files encoder_path eo =
     (case open_write files encoder_path of
        Inl e \<Rightarrow> Inl e
      | Inr files2 \<Rightarrow> Inr (dump files2 encoder_path eo))"

definition save_model ::
  "string \<Rightarrow> 'm fs \<Rightarrow> 'm obj \<Rightarrow> 'm obj \<Rightarrow> string option \<Rightarrow> error + 'm fs" where
  "save_model base_dir files mo eo path =
     (let model_path = path_or_default base_dir path;
          encoder_path = encoder_path_of model_path
      in case save_model_file files model_path mo of
           Inl e \<Rightarrow> Inl e
         | Inr files1 \<Rightarrow> save_encoders_file files1 encoder_path eo)"

definition load_model ::
  "string \<Rightarrow> 'm fs \<Rightarrow> string option \<Rightarrow> error + ('m obj \<times> 'm obj)" where
  "load_model base_dir files path =
     (let model_path = path_or_default base_dir path;
          encoder_path = encoder_path_of model_path
      in case read_pickle files model_path of
           Inl e \<Rightarrow> Inl e
         | Inr mo \<Rightarrow>
            (case read_pickle files encoder_path of
               Inl e \<Rightarrow> Inl e
             | Inr eo \<Rightarrow> Inr (mo, eo)))"

subsection \<open>predict_price\<close>

definition encoder_at :: "'m obj \<Rightarrow> string \<Rightarrow> error + label_encoder" where
  "encoder_at eo col =
     (case eo of
        ModelObj _ \<Rightarrow> Inl TypeError
      | EncodersObj encs \<Rightarrow>
          (case map_of encs col of None \<Rightarrow> Inl (KeyError col) | Some le \<Rightarrow> Inr le))"

definition encode_field :: "'m obj \<Rightarrow> string \<Rightarrow> string \<Rightarrow> error + nat" where
  "encode_field eo col v =
     (case encoder_at eo col of
        Inl e \<Rightarrow> Inl e
      | Inr le \<Rightarrow>
          (case transform le [v] of
             Inl (ValueError _) \<Rightarrow> Inl (ValueError (UnknownCategory col v (classes le)))
           | Inl e \<Rightarrow> Inl e
           | Inr cs \<Rightarrow> Inr (hd cs)))"

definition py_round :: "real \<Rightarrow> int" where
  "py_round x =
     (let f = \<lfloor>x\<rfloor>; d = x - of_int f
      in if d < 1 / 2 then f
         else if 1 / 2 < d then f + 1
         else if even f then f else f + 1)"

definition quantize :: "real \<Rightarrow> int" where
  "quantize predicted_price = py_round (predicted_price / 10000) * 10000"

definition predict_price ::
  "string \<Rightarrow> ('m \<Rightarrow> features \<Rightarrow> real) \<Rightarrow> 'm fs \<Rightarrow> int \<Rightarrow> string \<Rightarrow> string \<Rightarrow> string
     \<Rightarrow> error + int" where
  "predict_price base_dir predict files yr br model_name pk =
     (case load_model base_dir files None of
        Inl e \<Rightarrow> Inl e
      | Inr (mo, eo) \<Rightarrow>
     (case encode_field eo ''brand'' br of
        Inl e \<Rightarrow> Inl e
      | Inr brand_encoded \<Rightarrow>
     (case encode_field eo ''model'' model_name of
        Inl e \<Rightarrow> Inl e
      | Inr model_encoded \<Rightarrow>
     (case encode_field eo ''package'' pk of
        Inl e \<Rightarrow> Inl e
      | Inr package_encoded \<Rightarrow>
     (case mo of
        EncodersObj _ \<Rightarrow> Inl AttributeError
      | ModelObj m \<Rightarrow>
          Inr (quantize
                 (predict m (yr, brand_encoded, model_encoded, package_encoded))))))))"

definition fiyat_tahmin_et ::
  "string \<Rightarrow> ('m \<Rightarrow> features \<Rightarrow> real) \<Rightarrow> 'm fs \<Rightarrow> int \<Rightarrow> string \<Rightarrow> string \<Rightarrow> string
     \<Rightarrow> error + int" where
  "fiyat_tahmin_et base_dir predict files yil marka mdl paket =
     predict_price base_dir predict files yil marka mdl paket"

subsection \<open>clean_data\<close>

text \<open>
  Coercion of one cell by \<^verbatim>\<open>astype(int)\<close>, which applies Python's \<^verbatim>\<open>int\<close>: an
  integer is kept; a float is truncated towards zero; a string is stripped of surrounding
  white space and read as an optional sign followed by decimal digits, single underscores
  allowed between digits (ASCII only); any other string raises \<^verbatim>\<open>ValueError\<close>.
\<close>

definition is_space :: "char \<Rightarrow> bool" where
  "is_space c = List.member [CHR '' '', CHR 0x09, CHR 0x0A, CHR 0x0B, CHR 0x0C, CHR 0x0D] c"

definition strip :: "string \<Rightarrow> string" where
  "strip s = rev (dropWhile is_space (rev (dropWhile is_space s)))"

definition digit_val :: "char \<Rightarrow> nat option" where
  "digit_val c = index_of c ''0123456789''"

fun parse_body :: "nat \<Rightarrow> string \<Rightarrow> nat option" where
  "parse_body acc [] = Some acc"
| "parse_body acc [c] =
     (case digit_val c of None \<Rightarrow> None | Some v \<Rightarrow> Some (acc * 10 + v))"
| "parse_body acc (c # d # ds) =
     (if c = CHR ''_''
      then (case digit_val d of None \<Rightarrow> None | Some v \<Rightarrow> parse_body (acc * 10 + v) ds)
      else (case digit_val c of None \<Rightarrow> None | Some v \<Rightarrow> parse_body (acc * 10 + v) (d # ds)))"

definition parse_nat :: "string \<Rightarrow> nat option" where
  "parse_nat s =
     (case s of
        [] \<Rightarrow> None
      | c # cs \<Rightarrow> (case digit_val c of None \<Rightarrow> None | Some v \<Rightarrow> parse_body v cs))"

definition int_of_str :: "string \<Rightarrow> int option" where
  "int_of_str s =
     (case strip s of
        [] \<Rightarrow> None
      | c # cs \<Rightarrow>
          if c = CHR ''-'' then map_option (\<lambda>n. - int n) (parse_nat cs)
          else if c = CHR ''+'' then map_option int (parse_nat cs)
          else map_option int (parse_nat (c # cs)))"

definition py_int :: "cell \<Rightarrow> error + int" where
  "py_int c =
     (case c of
        Null \<Rightarrow> Inl TypeError
      | IntV i \<Rightarrow> Inr i
      | FloatV x \<Rightarrow> Inr (if 0 \<le> x then \<lfloor>x\<rfloor> else \<lceil>x\<rceil>)
      | StrV s \<Rightarrow>
          (case int_of_str s of None \<Rightarrow> Inl (ValueError (InvalidLiteral s)) | Some i \<Rightarrow> Inr i))"

fun astype_int :: "cell list \<Rightarrow> error + int list" where
  "astype_int [] = Inr []"
| "astype_int (c # cs) =
     (case py_int c of
        Inl e \<Rightarrow> Inl e
      | Inr i \<Rightarrow> (case astype_int cs of Inl e \<Rightarrow> Inl e | Inr is \<Rightarrow> Inr (i # is)))"

definition null_count :: "raw_row \<Rightarrow> nat" where
  "null_count r =
     (if year r = Null then 1 else 0) + (if brand r = None then 1 else 0)
     + (if model r = None then 1 else 0) + (if package r = None then 1 else 0)
     + (if price r = Null then 1 else 0)"

definition dropna :: "raw_row list \<Rightarrow> raw_row list" where
  "dropna df = filter (\<lambda>r. null_count r = 0) df"

fun set_year :: "raw_row list \<Rightarrow> int list \<Rightarrow> raw_row list" where
  "set_year (r # rs) (i # is) = r\<lparr>year := IntV i\<rparr> # set_year rs is"
| "set_year _ _ = []"

fun set_price :: "raw_row list \<Rightarrow> int list \<Rightarrow> raw_row list" where
  "set_price (r # rs) (i # is) = r\<lparr>price := IntV i\<rparr> # set_price rs is"
| "set_price _ _ = []"

text \<open>
  \<^verbatim>\<open>Series.quantile(q)\<close> with the default linear interpolation between order
  statistics; on an empty column it is NaN, here \<open>None\<close>.
\<close>

definition quantile :: "int list \<Rightarrow> real \<Rightarrow> real option" where
  "quantile xs q =
     (if xs = [] then None
      else let s = sort xs;
               n = length s;
               h = real (n - 1) * q;
               lo = nat \<lfloor>h\<rfloor>;
               hi = min (lo + 1) (n - 1);
               g = h - real lo
           in Some (real_of_int (s ! lo) + g * (real_of_int (s ! hi) - real_of_int (s ! lo))))"

definition bounds :: "int list \<Rightarrow> (real \<times> real) option" where
  "bounds prices =
     (case quantile prices (25 / 100) of
        None \<Rightarrow> None
      | Some Q1 \<Rightarrow>
          (case quantile prices (75 / 100) of
             None \<Rightarrow> None
           | Some Q3 \<Rightarrow>
               (let IQR = Q3 - Q1
                in Some (Q1 - 15 / 10 * IQR, Q3 + 15 / 10 * IQR))))"

definition is_outlier :: "(real \<times> real) option \<Rightarrow> int \<Rightarrow> bool" where
  "is_outlier b p =
     (case b of
        None \<Rightarrow> False
      | Some (lower_bound, upper_bound) \<Rightarrow>
          real_of_int p < lower_bound \<or> upper_bound < real_of_int p)"

definition in_bounds :: "(real \<times> real) option \<Rightarrow> int \<Rightarrow> bool" where
  "in_bounds b p =
     (case b of
        None \<Rightarrow> False
      | Some (lower_bound, upper_bound) \<Rightarrow>
          lower_bound \<le> real_of_int p \<and> real_of_int p \<le> upper_bound)"

definition price_int :: "raw_row \<Rightarrow> int" where
  "price_int r = (case price r of IntV i \<Rightarrow> i | _ \<Rightarrow> 0)"

definition outlier_count :: "raw_row list \<Rightarrow> nat" where
  "outlier_count df =
     length (filter (is_outlier (bounds (map price_int df))) (map price_int df))"

definition remove_outliers :: "raw_row list \<Rightarrow> raw_row list" where
  "remove_outliers df =
     (if 0 < outlier_count df
      then filter (\<lambda>r. in_bounds (bounds (map price_int df)) (price_int r)) df
      else df)"

fun keep_first :: "'a list \<Rightarrow> 'a list \<Rightarrow> 'a list" where
  "keep_first seen [] = []"
| "keep_first seen (x # xs) =
     (if List.member seen x then keep_first seen xs else x # keep_first (x # seen) xs)"

definition drop_duplicates :: "'a list \<Rightarrow> 'a list" where
  "drop_duplicates df = keep_first [] df"

definition duplicated_count :: "'a list \<Rightarrow> nat" where
  "duplicated_count df = length df - length (drop_duplicates df)"

definition remove_duplicates :: "raw_row list \<Rightarrow> raw_row list" where
  "remove_duplicates df = (if 0 < duplicated_count df then drop_duplicates df else df)"

definition clean_data :: "raw_row list \<Rightarrow> error + raw_row list" where
  "clean_data df =
     (let total_missing = sum_list (map null_count df);
          df1 = (if 0 < total_missing then dropna df else df)
      in case astype_int (map year df1) of
           Inl e \<Rightarrow> Inl e
         | Inr ys \<Rightarrow>
             (let df2 = set_year df1 ys
              in case astype_int (map price df2) of
                   Inl e \<Rightarrow> Inl e
                 | Inr ps \<Rightarrow>
                     Inr (remove_duplicates (remove_outliers (set_price df2 ps)))))"

subsection \<open>train_models\<close>

text \<open>
  \<^verbatim>\<open>train_test_split(X, y, test_size=0.2, random_state=42)\<close>: the test partition has
  \<open>ceil(0.2 * n)\<close> rows and the train partition the rest; an empty train partition
  raises \<^verbatim>\<open>ValueError\<close>. The rows are taken along the permutation \<open>perm n\<close>:
  the test rows first, the train rows after them.
\<close>

definition train_test_split ::
  "(nat \<Rightarrow> nat list) \<Rightarrow> 'a list \<Rightarrow> error + ('a list \<times> 'a list)" where
  "train_test_split perm xs =
     (let n = length xs;
          n_test = nat \<lceil>2 / 10 * real n\<rceil>;
          n_train = n - n_test
      in if n_train = 0 then Inl (ValueError (EmptyTrainSet n))
         else Inr (map (\<lambda>i. xs ! i) (take n_train (drop n_test (perm n))),
                   map (\<lambda>i. xs ! i) (take n_test (perm n))))"

definition transform_cols :: "encoders \<Rightarrow> car list \<Rightarrow> error + encoded list" where
  "transform_cols encs df =
     (case map_of encs ''brand'' of None \<Rightarrow> Inl (KeyError ''brand'') | Some le_b \<Rightarrow>
     (case transform le_b (map brand df) of Inl e \<Rightarrow> Inl e | Inr bs \<Rightarrow>
     (case map_of encs ''model'' of None \<Rightarrow> Inl (KeyError ''model'') | Some le_m \<Rightarrow>
     (case transform le_m (map model df) of Inl e \<Rightarrow> Inl e | Inr ms \<Rightarrow>
     (case map_of encs ''package'' of None \<Rightarrow> Inl (KeyError ''package'') | Some le_p \<Rightarrow>
     (case transform le_p (map package df) of Inl e \<Rightarrow> Inl e | Inr ps \<Rightarrow>
        Inr (zip_codes df bs ms ps)))))))"

definition rmse :: "('m \<Rightarrow> features \<Rightarrow> real) \<Rightarrow> 'm \<Rightarrow> encoded list \<Rightarrow> real" where
  "rmse predict m test =
     sqrt (sum_list (map (\<lambda>r. (real_of_int (price r) - predict m (features_of r))\<^sup>2) test)
           / real (length test))"

record 'm best =
  results :: "(string \<times> 'm \<times> real) list"
  best_rmse :: "real option"
  best_model :: "'m option"
  best_model_name :: "string option"

definition init_best :: "'m best" where
  "init_best = \<lparr>results = [], best_rmse = None, best_model = None, best_model_name = None\<rparr>"

definition less_best :: "real \<Rightarrow> real option \<Rightarrow> bool" where
  "less_best r b = (case b of None \<Rightarrow> True | Some x \<Rightarrow> r < x)"

fun train_loop :: "('c \<Rightarrow> 'm \<times> real) \<Rightarrow> (string \<times> 'c) list \<Rightarrow> 'm best \<Rightarrow> 'm best" where
  "train_loop score [] st = st"
| "train_loop score ((name, c) # rest) st =
     (let (m, r) = score c;
          st1 = st\<lparr>results := AList.update name (m, r) (results st)\<rparr>
      in train_loop score rest
           (if less_best r (best_rmse st1)
            then st1\<lparr>best_rmse := Some r, best_model := Some m, best_model_name := Some name\<rparr>
            else st1))"

definition models :: "(string \<times> string) list" where
  "models = [(''Linear Regression'', ''LinearRegression''),
             (''Random Forest'', ''RandomForestRegressor''),
             (''Gradient Boosting'', ''GradientBoostingRegressor'')]"

record 'm trained =
  selected_model :: "'m option"
  selected_name :: "string option"
  out_encoders :: encoders
  out_results :: "(string \<times> 'm \<times> real) list"
  test_data :: "encoded list"

definition train_models ::
  "(string \<Rightarrow> encoded list \<Rightarrow> 'm) \<Rightarrow> ('m \<Rightarrow> features \<Rightarrow> real) \<Rightarrow> (nat \<Rightarrow> nat list)
     \<Rightarrow> car list \<Rightarrow> encoders option \<Rightarrow> error + 'm trained" where
  "train_models fit predict perm df encoders =
     (case (case encoders of
              None \<Rightarrow> encode_features df
            | Some encs \<Rightarrow>
                (case transform_cols encs df of
                   Inl e \<Rightarrow> Inl e
                 | Inr df_encoded \<Rightarrow> Inr (df_encoded, encs))) of
        Inl e \<Rightarrow> Inl e
      | Inr (df_encoded, encs) \<Rightarrow>
          (case train_test_split perm df_encoded of
             Inl e \<Rightarrow> Inl e
           | Inr (train, test) \<Rightarrow>
               (let st = train_loop
                           (\<lambda>c. let m = fit c train in (m, rmse predict m test))
                           models init_best
                in Inr \<lparr>selected_model = best_model st,
                        selected_name = best_model_name st,
                        out_encoders = encs,
                        out_results = results st,
                        test_data = test\<rparr>)))"

subsection \<open>Example data\<close>

definition demo_encoders :: encoders where
  "demo_encoders =
     [(''brand'', fit_encoder [''Toyota'', ''Honda'']),
      (''model'', fit_encoder [''Corolla'', ''Civic'']),
      (''package'', fit_encoder [''Dream'', ''Elegance''])]"

definition demo_dirs :: "real fs" where
  "demo_dirs = [''/'' \<mapsto> Dir, ''/app'' \<mapsto> Dir, ''/app/output'' \<mapsto> Dir]"

definition demo_files :: "real fs" where
  "demo_files =
     demo_dirs
      (''/app/output/model.pkl'' \<mapsto> File (Pickled (ModelObj 1254999)),
       ''/app/output/encoders.pkl'' \<mapsto> File (Pickled (EncodersObj demo_encoders)))"

definition demo_cars :: "car list" where
  "demo_cars =
     [\<lparr>year = 2024, brand = ''Toyota'', model = ''Corolla'', package = ''Dream'', price = 1250000\<rparr>,
      \<lparr>year = 2023, brand = ''Honda'', model = ''Civic'', package = ''Elegance'', price = 1250000\<rparr>,
      \<lparr>year = 2024, brand = ''Honda'', model = ''Civic'', package = ''Dream'', price = 1250000\<rparr>]"

definition demo_fit :: "string \<Rightarrow> encoded list \<Rightarrow> string" where
  "demo_fit c train = c"

definition demo_predict :: "string \<Rightarrow> features \<Rightarrow> real" where
  "demo_predict m x =
     (if m = ''LinearRegression'' then 1255000
      else if m = ''RandomForestRegressor'' then 1253000
      else 1247000)"

definition demo_perm :: "nat \<Rightarrow> nat list" where
  "demo_perm n = rev [0..<n]"

definition other_encoders :: encoders where
  "other_encoders =
     [(''brand'', fit_encoder [''BMW'']),
      (''model'', fit_encoder [''3 Serisi'']),
      (''package'', fit_encoder [''M Sport''])]"

definition demo_half :: "real fs" where
  "demo_half = demo_files(''/app/output/model.pkl'' \<mapsto> File (Pickled (ModelObj 2000000)))"


definition raw :: "int \<Rightarrow> int \<Rightarrow> raw_row" where
  "raw y p = \<lparr>year = IntV y, brand = Some ''Toyota'', model = Some ''Corolla'',
             package = Some ''Dream'', price = IntV p\<rparr>"

definition iqr_rows :: "raw_row list" where
  "iqr_rows = [raw 2020 100000, raw 2021 200000, raw 2022 300000, raw 2023 1000000,
               raw 2024 3000000]"


section \<open>Properties\<close>

subsection \<open>Looking values up in a fitted encoder\<close>

lemma index_of_None: "index_of v xs = None \<longleftrightarrow> v \<notin> set xs"
  by (induction xs) auto

lemma index_of_Some: "index_of v xs = Some i \<Longrightarrow> i < length xs \<and> xs ! i = v"
  by (induction xs arbitrary: i) (auto split: if_splits)

lemma index_of_mem: "v \<in> set xs \<Longrightarrow> \<exists>i. index_of v xs = Some i"
  using index_of_None [of v xs] by (cases "index_of v xs") auto

lemma set_classes_fit: "set (classes (fit_encoder vs)) = set vs"
  by (simp add: fit_encoder_def)

lemma encode_field_unknown:
  "map_of encs col = Some le \<Longrightarrow> v \<notin> set (classes le) \<Longrightarrow>
   encode_field (EncodersObj encs) col v = Inl (ValueError (UnknownCategory col v (classes le)))"
  using index_of_None [of v "classes le"]
  by (simp add: encode_field_def encoder_at_def transform1_def)

lemma encode_field_known:
  "map_of encs col = Some le \<Longrightarrow> index_of v (classes le) = Some c \<Longrightarrow>
   encode_field (EncodersObj encs) col v = Inr c"
  by (simp add: encode_field_def encoder_at_def transform1_def)

lemma encode_field_Inr:
  "encode_field eo col v = Inr c \<Longrightarrow>
   \<exists>encs le. eo = EncodersObj encs \<and> map_of encs col = Some le
     \<and> index_of v (classes le) = Some c"
  by (auto simp: encode_field_def encoder_at_def transform1_def
      split: obj.splits option.splits sum.splits error.splits)

subsection \<open>The default bundle location of the examples\<close>

lemma default_paths:
  "MODEL_PATH ''/app'' = ''/app/output/model.pkl''"
  "encoder_path_of ''/app/output/model.pkl'' = ''/app/output/encoders.pkl''"
  by (simp_all add: encoder_path_of_def MODEL_PATH_def join2_def dirname_def)

lemma demo_load:
  "load_model ''/app'' demo_files None =
     Inr (ModelObj 1254999, EncodersObj demo_encoders)"
  by (simp add: load_model_def read_pickle_def norm_path_def path_or_default_def default_paths
      demo_files_def demo_dirs_def)

subsection \<open>Inference\<close>

text \<open>
  C9. The wrapper \<^verbatim>\<open>fiyat_tahmin_et\<close> returns, on every input and every state of the
  store, exactly what \<^verbatim>\<open>predict_price\<close> returns there: the same price or the same
  error.
\<close>

theorem fiyat_tahmin_et_eq_predict_price:
  "fiyat_tahmin_et bd predict files yil marka mdl paket =
   predict_price bd predict files yil marka mdl paket"
  by (simp add: fiyat_tahmin_et_def)

text \<open>
  C2. With a bundle loaded whose three encoders were fitted on the columns \<open>vb\<close>,
  \<open>vm\<close>, \<open>vp\<close>: if the brand, the model or the package is not among the fitted
  values, \<^verbatim>\<open>predict_price\<close> raises \<^verbatim>\<open>ValueError\<close> and returns no price. The
  error names the first field that fails (brand, then model, then package), carries the
  offending value and the whole \<^verbatim>\<open>classes_\<close> list of that field's encoder, whose
  elements are exactly the fitted values.
\<close>

theorem predict_price_unknown_category:
  assumes "load_model bd files None = Inr (mo, EncodersObj encs)"
    and "map_of encs ''brand'' = Some (fit_encoder vb)"
    and "map_of encs ''model'' = Some (fit_encoder vm)"
    and "map_of encs ''package'' = Some (fit_encoder vp)"
    and "b \<notin> set vb \<or> m \<notin> set vm \<or> p \<notin> set vp"
  shows "predict_price bd predict files yr b m p =
           Inl (ValueError
             (if b \<notin> set vb then UnknownCategory ''brand'' b (classes (fit_encoder vb))
              else if m \<notin> set vm then UnknownCategory ''model'' m (classes (fit_encoder vm))
              else UnknownCategory ''package'' p (classes (fit_encoder vp))))
         \<and> set (classes (fit_encoder vb)) = set vb
         \<and> set (classes (fit_encoder vm)) = set vm
         \<and> set (classes (fit_encoder vp)) = set vp"
proof (cases "b \<in> set vb")
  case False
  then show ?thesis
    using assms(1,2)
    by (simp add: predict_price_def set_classes_fit encode_field_unknown)
next
  case b: True
  then obtain cb where cb: "index_of b (classes (fit_encoder vb)) = Some cb"
    using index_of_mem [of b "classes (fit_encoder vb)"] by (auto simp: set_classes_fit)
  show ?thesis
  proof (cases "m \<in> set vm")
    case False
    then show ?thesis
      using assms(1,2,3) b cb
      by (simp add: predict_price_def set_classes_fit encode_field_unknown encode_field_known)
  next
    case m: True
    then obtain cm where cm: "index_of m (classes (fit_encoder vm)) = Some cm"
      using index_of_mem [of m "classes (fit_encoder vm)"] by (auto simp: set_classes_fit)
    from b m assms(5) have "p \<notin> set vp" by simp
    then show ?thesis
      using assms(1-4) b m cb cm
      by (simp add: predict_price_def set_classes_fit encode_field_unknown encode_field_known)
  qed
qed

theorem predict_price_unknown_category_witness:
  "predict_price ''/app'' (\<lambda>m f. m) demo_files 2024 ''Toyota'' ''Corolla'' ''Nonexistent'' =
     Inl (ValueError (UnknownCategory ''package'' ''Nonexistent'' [''Dream'', ''Elegance'']))"
  using predict_price_unknown_category [OF demo_load, of "[''Toyota'', ''Honda'']"
      "[''Corolla'', ''Civic'']" "[''Dream'', ''Elegance'']" "''Toyota''" "''Corolla''"
      "''Nonexistent''" "\<lambda>m f. m" 2024]
  by (simp add: demo_encoders_def fit_encoder_def)

lemma py_round_bounds: "\<bar>real_of_int (py_round x) - x\<bar> \<le> 1 / 2"
  unfolding py_round_def Let_def by (auto; linarith)

lemma py_round_nearest: "\<bar>real_of_int (py_round x) - x\<bar> \<le> \<bar>real_of_int k - x\<bar>"
proof (cases "k = py_round x")
  case True
  then show ?thesis by simp
next
  case False
  then have "1 \<le> \<bar>k - py_round x\<bar>" by linarith
  then have "1 \<le> \<bar>real_of_int k - real_of_int (py_round x)\<bar>"
    by (metis of_int_1_le_iff of_int_abs of_int_diff)
  with py_round_bounds [of x] show ?thesis by linarith
qed

lemma quantize_dvd: "10000 dvd quantize x"
  by (simp add: quantize_def)

lemma quantize_nearest:
  "\<bar>real_of_int (quantize x) - x\<bar> \<le> \<bar>real_of_int (10000 * k) - x\<bar>"
proof -
  have "\<bar>real_of_int (py_round (x / 10000)) - x / 10000\<bar> \<le> \<bar>real_of_int k - x / 10000\<bar>"
    by (rule py_round_nearest)
  then have "10000 * \<bar>real_of_int (py_round (x / 10000)) - x / 10000\<bar>
      \<le> 10000 * \<bar>real_of_int k - x / 10000\<bar>" by simp
  moreover have "10000 * \<bar>real_of_int (py_round (x / 10000)) - x / 10000\<bar>
      = \<bar>real_of_int (quantize x) - x\<bar>"
    by (simp add: quantize_def abs_if algebra_simps)
  moreover have "10000 * \<bar>real_of_int k - x / 10000\<bar> = \<bar>real_of_int (10000 * k) - x\<bar>"
    by (simp add: abs_if algebra_simps)
  ultimately show ?thesis by simp
qed

lemma predict_price_Inr:
  assumes "predict_price bd predict files yr b m p = Inr r"
  shows "\<exists>mo encs le_b le_m le_p cb cm cp.
           load_model bd files None = Inr (ModelObj mo, EncodersObj encs)
           \<and> map_of encs ''brand'' = Some le_b \<and> index_of b (classes le_b) = Some cb
           \<and> map_of encs ''model'' = Some le_m \<and> index_of m (classes le_m) = Some cm
           \<and> map_of encs ''package'' = Some le_p \<and> index_of p (classes le_p) = Some cp
           \<and> r = quantize (predict mo (yr, cb, cm, cp))"
proof -
  from assms obtain mo eo cb cm cp where
    l: "load_model bd files None = Inr (ModelObj mo, eo)"
    and b: "encode_field eo ''brand'' b = Inr cb"
    and m: "encode_field eo ''model'' m = Inr cm"
    and p: "encode_field eo ''package'' p = Inr cp"
    and r: "r = quantize (predict mo (yr, cb, cm, cp))"
    by (auto simp: predict_price_def split: sum.splits prod.splits obj.splits)
  from encode_field_Inr [OF b] encode_field_Inr [OF m] encode_field_Inr [OF p] l r
  show ?thesis by fastforce
qed

lemma predict_price_fitted:
  assumes "load_model bd files None = Inr (ModelObj mo, EncodersObj encs)"
    and "map_of encs ''brand'' = Some le_b" "index_of b (classes le_b) = Some cb"
    and "map_of encs ''model'' = Some le_m" "index_of m (classes le_m) = Some cm"
    and "map_of encs ''package'' = Some le_p" "index_of p (classes le_p) = Some cp"
  shows "predict_price bd predict files yr b m p = Inr (quantize (predict mo (yr, cb, cm, cp)))"
  using assms by (simp add: predict_price_def encode_field_known)

text \<open>
  C3. Every successful \<^verbatim>\<open>predict_price\<close> result comes from a loaded model and three
  fitted codes, equals \<open>round(raw / 10000) * 10000\<close> for the raw prediction of the
  model at \<open>(year, brand code, model code, package code)\<close>, is at least as close to the
  raw prediction as any other multiple of 10,000, and is a multiple of 10,000. For every
  year and every fitted brand, model and package, with a model object loaded, the call
  does return a price.
\<close>

theorem predict_price_quantized:
  "(predict_price bd predict files yr b m p = Inr r \<longrightarrow>
      (\<exists>mo encs le_b le_m le_p cb cm cp.
         load_model bd files None = Inr (ModelObj mo, EncodersObj encs)
         \<and> map_of encs ''brand'' = Some le_b \<and> index_of b (classes le_b) = Some cb
         \<and> map_of encs ''model'' = Some le_m \<and> index_of m (classes le_m) = Some cm
         \<and> map_of encs ''package'' = Some le_p \<and> index_of p (classes le_p) = Some cp
         \<and> r = py_round (predict mo (yr, cb, cm, cp) / 10000) * 10000
         \<and> (\<forall>k. \<bar>real_of_int r - predict mo (yr, cb, cm, cp)\<bar>
                   \<le> \<bar>real_of_int (10000 * k) - predict mo (yr, cb, cm, cp)\<bar>))
      \<and> 10000 dvd r)
   \<and> (load_model bd files None = Inr (ModelObj mo', EncodersObj encs')
      \<and> map_of encs' ''brand'' = Some le_b' \<and> b \<in> set (classes le_b')
      \<and> map_of encs' ''model'' = Some le_m' \<and> m \<in> set (classes le_m')
      \<and> map_of encs' ''package'' = Some le_p' \<and> p \<in> set (classes le_p') \<longrightarrow>
      (\<exists>r'. predict_price bd predict files yr b m p = Inr r'))"
proof (intro conjI impI)
  assume a: "predict_price bd predict files yr b m p = Inr r"
  from predict_price_Inr [OF a] obtain mo encs le_b le_m le_p cb cm cp where
    h: "load_model bd files None = Inr (ModelObj mo, EncodersObj encs)"
      "map_of encs ''brand'' = Some le_b" "index_of b (classes le_b) = Some cb"
      "map_of encs ''model'' = Some le_m" "index_of m (classes le_m) = Some cm"
      "map_of encs ''package'' = Some le_p" "index_of p (classes le_p) = Some cp"
      "r = quantize (predict mo (yr, cb, cm, cp))"
    by blast
  have "\<forall>k. \<bar>real_of_int r - predict mo (yr, cb, cm, cp)\<bar>
             \<le> \<bar>real_of_int (10000 * k) - predict mo (yr, cb, cm, cp)\<bar>"
    unfolding h(8) using quantize_nearest by blast
  moreover have "r = py_round (predict mo (yr, cb, cm, cp) / 10000) * 10000"
    by (simp add: h(8) quantize_def)
  ultimately show "\<exists>mo encs le_b le_m le_p cb cm cp.
         load_model bd files None = Inr (ModelObj mo, EncodersObj encs)
         \<and> map_of encs ''brand'' = Some le_b \<and> index_of b (classes le_b) = Some cb
         \<and> map_of encs ''model'' = Some le_m \<and> index_of m (classes le_m) = Some cm
         \<and> map_of encs ''package'' = Some le_p \<and> index_of p (classes le_p) = Some cp
         \<and> r = py_round (predict mo (yr, cb, cm, cp) / 10000) * 10000
         \<and> (\<forall>k. \<bar>real_of_int r - predict mo (yr, cb, cm, cp)\<bar>
                   \<le> \<bar>real_of_int (10000 * k) - predict mo (yr, cb, cm, cp)\<bar>)"
    using h(1-7) by blast
  from h(8) show "10000 dvd r" by (simp add: quantize_dvd)
next
  assume a: "load_model bd files None = Inr (ModelObj mo', EncodersObj encs')
      \<and> map_of encs' ''brand'' = Some le_b' \<and> b \<in> set (classes le_b')
      \<and> map_of encs' ''model'' = Some le_m' \<and> m \<in> set (classes le_m')
      \<and> map_of encs' ''package'' = Some le_p' \<and> p \<in> set (classes le_p')"
  then obtain cb cm cp where "index_of b (classes le_b') = Some cb"
    "index_of m (classes le_m') = Some cm" "index_of p (classes le_p') = Some cp"
    using index_of_mem by meson
  with a predict_price_fitted [of bd files mo' encs' le_b' b cb le_m' m cm le_p' p cp predict yr]
  show "\<exists>r'. predict_price bd predict files yr b m p = Inr r'" by simp
qed

theorem predict_price_quantized_witness:
  "predict_price ''/app'' (\<lambda>m f. m) demo_files 2024 ''Toyota'' ''Corolla'' ''Dream'' = Inr 1250000
   \<and> (10000::int) dvd 1250000"
proof -
  have e: "predict_price ''/app'' (\<lambda>m f. m) demo_files 2024 ''Toyota'' ''Corolla'' ''Dream''
      = Inr 1250000"
    using demo_load
    by (simp add: predict_price_def encode_field_def encoder_at_def demo_encoders_def
        fit_encoder_def transform1_def quantize_def py_round_def)
  from predict_price_quantized [of "''/app''" "\<lambda>m f. m" demo_files 2024 "''Toyota''"
      "''Corolla''" "''Dream''" 1250000] e
  show ?thesis by blast
qed

subsection \<open>Encoding\<close>

lemma index_of_nth: "distinct xs \<Longrightarrow> i < length xs \<Longrightarrow> index_of (xs ! i) xs = Some i"
proof (induction xs arbitrary: i)
  case Nil
  then show ?case by simp
next
  case (Cons x xs)
  show ?case
  proof (cases i)
    case 0
    then show ?thesis by simp
  next
    case (Suc j)
    with Cons.prems have "j < length xs" "xs ! j \<noteq> x" by auto
    with Cons Suc show ?thesis by simp
  qed
qed

lemma distinct_classes_fit: "distinct (classes (fit_encoder vs))"
  by (simp add: fit_encoder_def)

lemma length_classes_fit: "length (classes (fit_encoder vs)) = card (set vs)"
  by (simp add: fit_encoder_def length_remdups_card_conv)

lemma transform1_Inr: "transform1 le v = Inr c \<longleftrightarrow> index_of v (classes le) = Some c"
  by (simp add: transform1_def split: option.splits)

lemma fit_roundtrip:
  assumes "v \<in> set vs"
  shows "\<exists>c. transform1 (fit_encoder vs) v = Inr c \<and> inverse_transform1 (fit_encoder vs) c = Inr v"
proof -
  from assms obtain c where c: "index_of v (classes (fit_encoder vs)) = Some c"
    using index_of_mem [of v "classes (fit_encoder vs)"] by (auto simp: set_classes_fit)
  from index_of_Some [OF c] have "inverse_transform1 (fit_encoder vs) c = Inr v"
    by (simp add: inverse_transform1_def)
  with c show ?thesis by (auto simp: transform1_Inr)
qed

lemma fit_codes_dense:
  "{c. \<exists>v\<in>set vs. transform1 (fit_encoder vs) v = Inr c} = {0..<card (set vs)}"
proof (intro set_eqI iffI)
  fix c
  assume "c \<in> {c. \<exists>v\<in>set vs. transform1 (fit_encoder vs) v = Inr c}"
  then obtain v where "index_of v (classes (fit_encoder vs)) = Some c"
    by (auto simp: transform1_Inr)
  from index_of_Some [OF this] show "c \<in> {0..<card (set vs)}"
    by (simp add: length_classes_fit)
next
  fix c
  assume "c \<in> {0..<card (set vs)}"
  then have lt: "c < length (classes (fit_encoder vs))" by (simp add: length_classes_fit)
  then have "classes (fit_encoder vs) ! c \<in> set vs"
    using nth_mem [OF lt] by (simp add: set_classes_fit)
  moreover have "transform1 (fit_encoder vs) (classes (fit_encoder vs) ! c) = Inr c"
    using index_of_nth [OF distinct_classes_fit lt] by (simp add: transform1_Inr)
  ultimately show "c \<in> {c. \<exists>v\<in>set vs. transform1 (fit_encoder vs) v = Inr c}" by blast
qed

lemma transform_total:
  "set vs \<subseteq> set (classes le) \<Longrightarrow>
   \<exists>cs. transform le vs = Inr cs \<and> length cs = length vs"
proof (induction vs)
  case Nil
  then show ?case by simp
next
  case (Cons v vs)
  then obtain c where "index_of v (classes le) = Some c"
    using index_of_mem [of v "classes le"] by auto
  with Cons show ?case by (auto simp: transform1_def)
qed

lemma fit_transform_total:
  "\<exists>cs. fit_transform vs = (fit_encoder vs, Inr cs) \<and> length cs = length vs"
  using transform_total [of vs "fit_encoder vs"]
  by (auto simp: fit_transform_def set_classes_fit)

lemma zip_codes_cols:
  "length bs = length df \<Longrightarrow> length ms = length df \<Longrightarrow> length ps = length df \<Longrightarrow>
   map brand (zip_codes df bs ms ps) = bs \<and> map model (zip_codes df bs ms ps) = ms
   \<and> map package (zip_codes df bs ms ps) = ps
   \<and> map year (zip_codes df bs ms ps) = map year df
   \<and> map price (zip_codes df bs ms ps) = map price df"
proof (induction df bs ms ps rule: zip_codes.induct)
  case (1 r rs b bs m ms p ps)
  then show ?case by (simp add: set_codes_def)
qed simp_all

lemma encode_features_total:
  "\<exists>bs ms ps. encode_features df =
      Inr (zip_codes df bs ms ps,
           [(''brand'', fit_encoder (map brand df)), (''model'', fit_encoder (map model df)),
            (''package'', fit_encoder (map package df))])
    \<and> transform (fit_encoder (map brand df)) (map brand df) = Inr bs
    \<and> transform (fit_encoder (map model df)) (map model df) = Inr ms
    \<and> transform (fit_encoder (map package df)) (map package df) = Inr ps
    \<and> length bs = length df \<and> length ms = length df \<and> length ps = length df"
proof -
  obtain bs where b: "fit_transform (map brand df) = (fit_encoder (map brand df), Inr bs)"
    "length bs = length df" using fit_transform_total [of "map brand df"] by auto
  obtain ms where m: "fit_transform (map model df) = (fit_encoder (map model df), Inr ms)"
    "length ms = length df" using fit_transform_total [of "map model df"] by auto
  obtain ps where p: "fit_transform (map package df) = (fit_encoder (map package df), Inr ps)"
    "length ps = length df" using fit_transform_total [of "map package df"] by auto
  from b(1) m(1) p(1) have "encode_features df =
      Inr (zip_codes df bs ms ps,
           [(''brand'', fit_encoder (map brand df)), (''model'', fit_encoder (map model df)),
            (''package'', fit_encoder (map package df))])"
    by (simp add: encode_features_def)
  moreover from b m p have "transform (fit_encoder (map brand df)) (map brand df) = Inr bs"
    "transform (fit_encoder (map model df)) (map model df) = Inr ms"
    "transform (fit_encoder (map package df)) (map package df) = Inr ps"
    by (simp_all add: fit_transform_def Let_def)
  ultimately show ?thesis using b(2) m(2) p(2) by blast
qed

subsection \<open>Model selection\<close>



lemma train_loop_Some:
  assumes "best_rmse st = Some b"
  shows "(best_rmse (train_loop score cs st) = Some b
          \<and> best_model (train_loop score cs st) = best_model st
          \<and> best_model_name (train_loop score cs st) = best_model_name st
          \<and> (\<forall>j<length cs. b \<le> snd (score (snd (cs ! j)))))
       \<or> (\<exists>i<length cs.
            best_rmse (train_loop score cs st) = Some (snd (score (snd (cs ! i))))
          \<and> best_model (train_loop score cs st) = Some (fst (score (snd (cs ! i))))
          \<and> best_model_name (train_loop score cs st) = Some (fst (cs ! i))
          \<and> snd (score (snd (cs ! i))) < b
          \<and> (\<forall>j<length cs. snd (score (snd (cs ! i))) \<le> snd (score (snd (cs ! j))))
          \<and> (\<forall>j<i. snd (score (snd (cs ! i))) < snd (score (snd (cs ! j)))))"
  using assms
proof (induction cs arbitrary: st b)
  case Nil
  then show ?case by simp
next
  case (Cons a cs)
  obtain n c where a: "a = (n, c)" by (cases a)
  obtain m r where s: "score c = (m, r)" by (cases "score c")
  let ?st1 = "st\<lparr>results := AList.update n (m, r) (results st)\<rparr>"
  show ?case
  proof (cases "r < b")
    case True
    let ?st2 = "?st1\<lparr>best_rmse := Some r, best_model := Some m, best_model_name := Some n\<rparr>"
    have step: "train_loop score (a # cs) st = train_loop score cs ?st2"
      using a s True Cons.prems by (simp add: less_best_def)
    have "best_rmse ?st2 = Some r" by simp
    from Cons.IH [OF this, unfolded step [symmetric]]
    show ?thesis
    proof (elim disjE exE conjE)
      assume h: "best_rmse (train_loop score (a # cs) st) = Some r"
        "best_model (train_loop score (a # cs) st) = best_model ?st2"
        "best_model_name (train_loop score (a # cs) st) = best_model_name ?st2"
        "\<forall>j<length cs. r \<le> snd (score (snd (cs ! j)))"
      have "\<exists>i<length (a # cs).
            best_rmse (train_loop score (a # cs) st) = Some (snd (score (snd ((a # cs) ! i))))
          \<and> best_model (train_loop score (a # cs) st) = Some (fst (score (snd ((a # cs) ! i))))
          \<and> best_model_name (train_loop score (a # cs) st) = Some (fst ((a # cs) ! i))
          \<and> snd (score (snd ((a # cs) ! i))) < b
          \<and> (\<forall>j<length (a # cs). snd (score (snd ((a # cs) ! i))) \<le> snd (score (snd ((a # cs) ! j))))
          \<and> (\<forall>j<i. snd (score (snd ((a # cs) ! i))) < snd (score (snd ((a # cs) ! j))))"
        using h a s True by (intro exI [of _ 0]) (simp add: All_less_Suc2)
      then show ?thesis by blast
    next
      fix i
      assume h: "i < length cs"
        "best_rmse (train_loop score (a # cs) st) = Some (snd (score (snd (cs ! i))))"
        "best_model (train_loop score (a # cs) st) = Some (fst (score (snd (cs ! i))))"
        "best_model_name (train_loop score (a # cs) st) = Some (fst (cs ! i))"
        "snd (score (snd (cs ! i))) < r"
        "\<forall>j<length cs. snd (score (snd (cs ! i))) \<le> snd (score (snd (cs ! j)))"
        "\<forall>j<i. snd (score (snd (cs ! i))) < snd (score (snd (cs ! j)))"
      have "\<exists>i<length (a # cs).
            best_rmse (train_loop score (a # cs) st) = Some (snd (score (snd ((a # cs) ! i))))
          \<and> best_model (train_loop score (a # cs) st) = Some (fst (score (snd ((a # cs) ! i))))
          \<and> best_model_name (train_loop score (a # cs) st) = Some (fst ((a # cs) ! i))
          \<and> snd (score (snd ((a # cs) ! i))) < b
          \<and> (\<forall>j<length (a # cs). snd (score (snd ((a # cs) ! i))) \<le> snd (score (snd ((a # cs) ! j))))
          \<and> (\<forall>j<i. snd (score (snd ((a # cs) ! i))) < snd (score (snd ((a # cs) ! j))))"
        using h a s True by (intro exI [of _ "Suc i"]) (simp add: All_less_Suc2)
      then show ?thesis by blast
    qed
  next
    case False
    have step: "train_loop score (a # cs) st = train_loop score cs ?st1"
      using a s False Cons.prems by (simp add: less_best_def)
    have "best_rmse ?st1 = Some b" using Cons.prems by simp
    from Cons.IH [OF this, unfolded step [symmetric]]
    show ?thesis
    proof (elim disjE exE conjE)
      assume h: "best_rmse (train_loop score (a # cs) st) = Some b"
        "best_model (train_loop score (a # cs) st) = best_model ?st1"
        "best_model_name (train_loop score (a # cs) st) = best_model_name ?st1"
        "\<forall>j<length cs. b \<le> snd (score (snd (cs ! j)))"
      have "best_rmse (train_loop score (a # cs) st) = Some b
          \<and> best_model (train_loop score (a # cs) st) = best_model st
          \<and> best_model_name (train_loop score (a # cs) st) = best_model_name st
          \<and> (\<forall>j<length (a # cs). b \<le> snd (score (snd ((a # cs) ! j))))"
        using h a s False by (simp add: All_less_Suc2)
      then show ?thesis by blast
    next
      fix i
      assume h: "i < length cs"
        "best_rmse (train_loop score (a # cs) st) = Some (snd (score (snd (cs ! i))))"
        "best_model (train_loop score (a # cs) st) = Some (fst (score (snd (cs ! i))))"
        "best_model_name (train_loop score (a # cs) st) = Some (fst (cs ! i))"
        "snd (score (snd (cs ! i))) < b"
        "\<forall>j<length cs. snd (score (snd (cs ! i))) \<le> snd (score (snd (cs ! j)))"
        "\<forall>j<i. snd (score (snd (cs ! i))) < snd (score (snd (cs ! j)))"
      have "\<exists>i<length (a # cs).
            best_rmse (train_loop score (a # cs) st) = Some (snd (score (snd ((a # cs) ! i))))
          \<and> best_model (train_loop score (a # cs) st) = Some (fst (score (snd ((a # cs) ! i))))
          \<and> best_model_name (train_loop score (a # cs) st) = Some (fst ((a # cs) ! i))
          \<and> snd (score (snd ((a # cs) ! i))) < b
          \<and> (\<forall>j<length (a # cs). snd (score (snd ((a # cs) ! i))) \<le> snd (score (snd ((a # cs) ! j))))
          \<and> (\<forall>j<i. snd (score (snd ((a # cs) ! i))) < snd (score (snd ((a # cs) ! j))))"
        using h a s False by (intro exI [of _ "Suc i"]) (simp add: All_less_Suc2)
      then show ?thesis by blast
    qed
  qed
qed

lemma train_loop_first_min:
  assumes "cs \<noteq> []"
  shows "\<exists>i<length cs.
           best_rmse (train_loop score cs init_best) = Some (snd (score (snd (cs ! i))))
         \<and> best_model (train_loop score cs init_best) = Some (fst (score (snd (cs ! i))))
         \<and> best_model_name (train_loop score cs init_best) = Some (fst (cs ! i))
         \<and> (\<forall>j<length cs. snd (score (snd (cs ! i))) \<le> snd (score (snd (cs ! j))))
         \<and> (\<forall>j<i. snd (score (snd (cs ! i))) < snd (score (snd (cs ! j))))"
proof -
  from assms obtain a rest where cs: "cs = a # rest" by (cases cs) auto
  obtain n c where a: "a = (n, c)" by (cases a)
  obtain m r where s: "score c = (m, r)" by (cases "score c")
  let ?st2 = "init_best\<lparr>results := AList.update n (m, r) (results init_best),
                best_rmse := Some r, best_model := Some m, best_model_name := Some n\<rparr>"
  have step: "train_loop score cs init_best = train_loop score rest ?st2"
    using cs a s by (simp add: less_best_def init_best_def)
  have "best_rmse ?st2 = Some r" by simp
  from train_loop_Some [OF this, of score rest, unfolded step [symmetric]]
  show ?thesis
  proof (elim disjE exE conjE)
    assume h: "best_rmse (train_loop score cs init_best) = Some r"
      "best_model (train_loop score cs init_best) = best_model ?st2"
      "best_model_name (train_loop score cs init_best) = best_model_name ?st2"
      "\<forall>j<length rest. r \<le> snd (score (snd (rest ! j)))"
    show ?thesis
      unfolding cs using h a s by (intro exI [of _ 0]) (simp add: All_less_Suc2 cs)
  next
    fix i
    assume h: "i < length rest"
      "best_rmse (train_loop score cs init_best) = Some (snd (score (snd (rest ! i))))"
      "best_model (train_loop score cs init_best) = Some (fst (score (snd (rest ! i))))"
      "best_model_name (train_loop score cs init_best) = Some (fst (rest ! i))"
      "snd (score (snd (rest ! i))) < r"
      "\<forall>j<length rest. snd (score (snd (rest ! i))) \<le> snd (score (snd (rest ! j)))"
      "\<forall>j<i. snd (score (snd (rest ! i))) < snd (score (snd (rest ! j)))"
    show ?thesis
      unfolding cs using h a s by (intro exI [of _ "Suc i"]) (simp add: All_less_Suc2 cs)
  qed
qed



lemma demo_encode:
  "encode_features demo_cars =
     Inr ([\<lparr>year = 2024, brand = 1, model = 1, package = 0, price = 1250000\<rparr>,
           \<lparr>year = 2023, brand = 0, model = 0, package = 1, price = 1250000\<rparr>,
           \<lparr>year = 2024, brand = 0, model = 0, package = 0, price = 1250000\<rparr>],
          [(''brand'', LabelEncoder [''Honda'', ''Toyota'']),
           (''model'', LabelEncoder [''Civic'', ''Corolla'']),
           (''package'', LabelEncoder [''Dream'', ''Elegance''])])"
  by (simp add: encode_features_def demo_cars_def fit_transform_def fit_encoder_def
      transform1_def set_codes_def)

lemma demo_split:
  "train_test_split demo_perm [a, b, c] = Inr ([b, a], [c])"
  by (simp add: train_test_split_def demo_perm_def Let_def)

lemma demo_train:
  "train_models demo_fit demo_predict demo_perm demo_cars None =
     Inr \<lparr>selected_model = Some ''RandomForestRegressor'',
          selected_name = Some ''Random Forest'',
          out_encoders = [(''brand'', LabelEncoder [''Honda'', ''Toyota'']),
                          (''model'', LabelEncoder [''Civic'', ''Corolla'']),
                          (''package'', LabelEncoder [''Dream'', ''Elegance''])],
          out_results = [(''Linear Regression'', ''LinearRegression'', sqrt 25000000),
                         (''Random Forest'', ''RandomForestRegressor'', sqrt 9000000),
                         (''Gradient Boosting'', ''GradientBoostingRegressor'', sqrt 9000000)],
          test_data = [\<lparr>year = 2024, brand = 0, model = 0, package = 0, price = 1250000\<rparr>]\<rparr>"
  by (simp add: train_models_def demo_encode demo_split models_def init_best_def less_best_def
      rmse_def demo_fit_def demo_predict_def features_of_def Let_def)


subsection \<open>When training fails\<close>

lemma n_test_less: "2 \<le> n \<Longrightarrow> nat \<lceil>2 / 10 * real n\<rceil> < n"
proof -
  assume n: "2 \<le> n"
  then have "2 / 10 * real n \<le> real_of_int (int n - 1)" by simp
  then have "\<lceil>2 / 10 * real n\<rceil> \<le> int n - 1" by (simp only: ceiling_le_iff)
  with n show ?thesis by linarith
qed

lemma n_test_small: "n < 2 \<Longrightarrow> n - nat \<lceil>2 / 10 * real n\<rceil> = 0"
proof -
  assume "n < 2"
  then consider "n = 0" | "n = 1" by linarith
  then show ?thesis
  proof cases
    case 1
    then show ?thesis by simp
  next
    case 2
    have "\<lceil>2 / 10 :: real\<rceil> = 1" by (simp add: ceiling_eq_iff)
    with 2 show ?thesis by simp
  qed
qed

lemma train_test_split_small:
  "length xs < 2 \<Longrightarrow> train_test_split perm xs = Inl (ValueError (EmptyTrainSet (length xs)))"
  using n_test_small [of "length xs"] by (simp add: train_test_split_def Let_def)

lemma train_test_split_ok:
  "2 \<le> length xs \<Longrightarrow> \<exists>train test. train_test_split perm xs = Inr (train, test)"
  using n_test_less [of "length xs"] by (simp add: train_test_split_def Let_def)

lemma encode_features_length:
  "\<exists>rows encs. encode_features df = Inr (rows, encs) \<and> length rows = length df
     \<and> transform_cols encs df = Inr rows"
proof -
  from encode_features_total [of df] obtain bs ms ps where
    h: "encode_features df =
      Inr (zip_codes df bs ms ps,
           [(''brand'', fit_encoder (map brand df)), (''model'', fit_encoder (map model df)),
            (''package'', fit_encoder (map package df))])"
    "transform (fit_encoder (map brand df)) (map brand df) = Inr bs"
    "transform (fit_encoder (map model df)) (map model df) = Inr ms"
    "transform (fit_encoder (map package df)) (map package df) = Inr ps"
    "length bs = length df" "length ms = length df" "length ps = length df"
    by blast
  from zip_codes_cols [OF h(5-7)] have "map year (zip_codes df bs ms ps) = map year df"
    by simp
  then have "length (zip_codes df bs ms ps) = length df"
    by (rule map_eq_imp_length_eq)
  moreover from h(2-4) have "transform_cols
      [(''brand'', fit_encoder (map brand df)), (''model'', fit_encoder (map model df)),
       (''package'', fit_encoder (map package df))] df = Inr (zip_codes df bs ms ps)"
    by (simp add: transform_cols_def)
  ultimately show ?thesis using h(1) by blast
qed

lemma train_loop_models_selects:
  "best_model (train_loop score models init_best) \<noteq> None"
proof -
  have "models \<noteq> []" by (simp add: models_def)
  from train_loop_first_min [OF this, of score] show ?thesis by auto
qed

text \<open>
  C4, as the code has it. \<^verbatim>\<open>train_models\<close> never looks at the number of distinct
  prices and has no error of its own. On a dataset of fewer than two records it fails with
  the \<^verbatim>\<open>ValueError\<close> of \<^verbatim>\<open>train_test_split\<close> (the train partition would be
  empty); on every dataset of two or more records it returns a selected model. Passing the
  encoders that \<^verbatim>\<open>encode_features\<close> fits on the same dataset changes nothing.
\<close>

theorem train_models_fails_only_below_two_records:
  "(length df < 2 \<longrightarrow>
      train_models fit predict perm df None = Inl (ValueError (EmptyTrainSet (length df))))
   \<and> (2 \<le> length df \<longrightarrow>
      (\<exists>out. train_models fit predict perm df None = Inr out \<and> selected_model out \<noteq> None))
   \<and> (\<exists>rows encs. encode_features df = Inr (rows, encs)
         \<and> train_models fit predict perm df (Some encs) = train_models fit predict perm df None)"
proof -
  from encode_features_length [of df] obtain rows encs where
    e: "encode_features df = Inr (rows, encs)" "length rows = length df"
      "transform_cols encs df = Inr rows" by blast
  have 1: "length df < 2 \<longrightarrow>
      train_models fit predict perm df None = Inl (ValueError (EmptyTrainSet (length df)))"
    using e train_test_split_small [of rows perm] by (simp add: train_models_def)
  have 2: "2 \<le> length df \<longrightarrow>
      (\<exists>out. train_models fit predict perm df None = Inr out \<and> selected_model out \<noteq> None)"
  proof
    assume "2 \<le> length df"
    with e have "2 \<le> length rows" by simp
    from train_test_split_ok [OF this, of perm] obtain train test where
      "train_test_split perm rows = Inr (train, test)" by blast
    with e show "\<exists>out. train_models fit predict perm df None = Inr out \<and> selected_model out \<noteq> None"
      using train_loop_models_selects by (simp add: train_models_def Let_def)
  qed
  have 3: "train_models fit predict perm df (Some encs) = train_models fit predict perm df None"
    using e by (simp add: train_models_def)
  from 1 2 3 e(1) show ?thesis by blast
qed

text \<open>
  C4 as stated fails: three records that all have the price 1,250,000 are trained on and a
  model is returned.
\<close>

theorem train_models_single_price_counterexample:
  "card (set (map price demo_cars)) = 1
   \<and> train_models demo_fit demo_predict demo_perm demo_cars None =
     Inr \<lparr>selected_model = Some ''RandomForestRegressor'',
          selected_name = Some ''Random Forest'',
          out_encoders = [(''brand'', LabelEncoder [''Honda'', ''Toyota'']),
                          (''model'', LabelEncoder [''Civic'', ''Corolla'']),
                          (''package'', LabelEncoder [''Dream'', ''Elegance''])],
          out_results = [(''Linear Regression'', ''LinearRegression'', sqrt 25000000),
                         (''Random Forest'', ''RandomForestRegressor'', sqrt 9000000),
                         (''Gradient Boosting'', ''GradientBoostingRegressor'', sqrt 9000000)],
          test_data = [\<lparr>year = 2024, brand = 0, model = 0, package = 0, price = 1250000\<rparr>]\<rparr>"
  using demo_train by (simp add: demo_cars_def)

theorem train_models_fails_only_below_two_records_witness:
  "length (take 1 demo_cars) < 2
   \<and> train_models demo_fit demo_predict demo_perm (take 1 demo_cars) None =
       Inl (ValueError (EmptyTrainSet 1))
   \<and> 2 \<le> length demo_cars
   \<and> (\<exists>out. train_models demo_fit demo_predict demo_perm demo_cars None = Inr out
          \<and> selected_model out \<noteq> None)"
proof -
  have l: "length (take 1 demo_cars) = 1" "length demo_cars = 3" by (simp_all add: demo_cars_def)
  from train_models_fails_only_below_two_records [of "take 1 demo_cars" demo_fit demo_predict
      demo_perm]
    train_models_fails_only_below_two_records [of demo_cars demo_fit demo_predict demo_perm]
  show ?thesis unfolding l by simp
qed

subsection \<open>Codes of whole columns\<close>

lemma transform_single: "transform le [v] = Inr [c] \<longleftrightarrow> transform1 le v = Inr c"
  by (simp split: sum.splits)

lemma inverse_transform_single:
  "inverse_transform le [c] = Inr [v] \<longleftrightarrow> inverse_transform1 le c = Inr v"
  by (simp split: sum.splits)

lemma transform_Inr_iff:
  "transform le vs = Inr cs \<longleftrightarrow>
   list_all2 (\<lambda>v c. index_of v (classes le) = Some c) vs cs"
proof (induction vs arbitrary: cs)
  case Nil
  then show ?case by auto
next
  case (Cons v vs)
  show ?case
  proof (cases cs)
    case Nil
    then show ?thesis by (simp split: sum.splits)
  next
    case (Cons c cs')
    with Cons.IH [of cs'] show ?thesis
      by (auto simp: transform1_def split: sum.splits option.splits)
  qed
qed

lemma inverse_transform_codes:
  "list_all2 (\<lambda>v c. index_of v (classes le) = Some c) vs cs \<Longrightarrow>
   inverse_transform le cs = Inr vs"
proof (induction vs cs rule: list_all2_induct)
  case Nil
  then show ?case by simp
next
  case (Cons v vs c cs)
  from index_of_Some [OF Cons.hyps(1)] have "inverse_transform1 le c = Inr v"
    by (simp add: inverse_transform1_def)
  with Cons.IH show ?case by simp
qed

lemma set_codes_eq:
  "list_all2 (\<lambda>v c. index_of v xs = Some c) vs cs \<Longrightarrow>
   set cs = {c. \<exists>v\<in>set vs. index_of v xs = Some c}"
  by (induction vs cs rule: list_all2_induct) auto

lemma fit_column_codes:
  assumes "transform (fit_encoder vs) vs = Inr cs"
  shows "inverse_transform (fit_encoder vs) cs = Inr vs \<and> set cs = {0..<card (set vs)}"
proof -
  from assms have l: "list_all2 (\<lambda>v c. index_of v (classes (fit_encoder vs)) = Some c) vs cs"
    by (simp add: transform_Inr_iff)
  from set_codes_eq [OF l] have "set cs = {c. \<exists>v\<in>set vs. transform1 (fit_encoder vs) v = Inr c}"
    by (simp add: transform1_Inr)
  with inverse_transform_codes [OF l] show ?thesis by (simp add: fit_codes_dense)
qed

text \<open>
  C8. \<^verbatim>\<open>encode_features\<close> always returns, with the three encoders fitted on the three
  columns. In the encoded frame each categorical column holds the codes that
  \<^verbatim>\<open>transform\<close> assigns to the column; \<^verbatim>\<open>inverse_transform\<close> maps that column of
  codes back to the original column, and the codes occurring in it are exactly
  \<open>0, ..., (number of distinct values) - 1\<close>; year and price are kept. For the encoder
  fitted on any column \<open>vs\<close>, every value \<open>v\<close> of the column is transformed to a
  code whose inverse is \<open>v\<close>, and the codes of the values of the column are exactly
  the same dense range.
\<close>

theorem encode_features_roundtrip_dense:
  "(\<exists>rows. encode_features df =
      Inr (rows,
           [(''brand'', fit_encoder (map brand df)), (''model'', fit_encoder (map model df)),
            (''package'', fit_encoder (map package df))])
      \<and> transform (fit_encoder (map brand df)) (map brand df) = Inr (map brand rows)
      \<and> transform (fit_encoder (map model df)) (map model df) = Inr (map model rows)
      \<and> transform (fit_encoder (map package df)) (map package df) = Inr (map package rows)
      \<and> inverse_transform (fit_encoder (map brand df)) (map brand rows) = Inr (map brand df)
      \<and> inverse_transform (fit_encoder (map model df)) (map model rows) = Inr (map model df)
      \<and> inverse_transform (fit_encoder (map package df)) (map package rows)
          = Inr (map package df)
      \<and> set (map brand rows) = {0..<card (set (map brand df))}
      \<and> set (map model rows) = {0..<card (set (map model df))}
      \<and> set (map package rows) = {0..<card (set (map package df))}
      \<and> map year rows = map year df \<and> map price rows = map price df)
   \<and> (\<forall>v\<in>set vs. \<exists>c. transform (fit_encoder vs) [v] = Inr [c]
                       \<and> inverse_transform (fit_encoder vs) [c] = Inr [v])
   \<and> {c. \<exists>v\<in>set vs. transform (fit_encoder vs) [v] = Inr [c]} = {0..<card (set vs)}"
proof (intro conjI)
  from encode_features_total [of df] obtain bs ms ps where
    h: "encode_features df =
      Inr (zip_codes df bs ms ps,
           [(''brand'', fit_encoder (map brand df)), (''model'', fit_encoder (map model df)),
            (''package'', fit_encoder (map package df))])"
    "transform (fit_encoder (map brand df)) (map brand df) = Inr bs"
    "transform (fit_encoder (map model df)) (map model df) = Inr ms"
    "transform (fit_encoder (map package df)) (map package df) = Inr ps"
    "length bs = length df" "length ms = length df" "length ps = length df"
    by blast
  from zip_codes_cols [OF h(5-7)] have cols:
    "map brand (zip_codes df bs ms ps) = bs" "map model (zip_codes df bs ms ps) = ms"
    "map package (zip_codes df bs ms ps) = ps"
    "map year (zip_codes df bs ms ps) = map year df"
    "map price (zip_codes df bs ms ps) = map price df"
    by simp_all
  note inv = fit_column_codes [OF h(2), THEN conjunct1] fit_column_codes [OF h(3), THEN conjunct1]
    fit_column_codes [OF h(4), THEN conjunct1]
  note dense = fit_column_codes [OF h(2), THEN conjunct2]
    fit_column_codes [OF h(3), THEN conjunct2] fit_column_codes [OF h(4), THEN conjunct2]
  show "\<exists>rows. encode_features df =
      Inr (rows,
           [(''brand'', fit_encoder (map brand df)), (''model'', fit_encoder (map model df)),
            (''package'', fit_encoder (map package df))])
      \<and> transform (fit_encoder (map brand df)) (map brand df) = Inr (map brand rows)
      \<and> transform (fit_encoder (map model df)) (map model df) = Inr (map model rows)
      \<and> transform (fit_encoder (map package df)) (map package df) = Inr (map package rows)
      \<and> inverse_transform (fit_encoder (map brand df)) (map brand rows) = Inr (map brand df)
      \<and> inverse_transform (fit_encoder (map model df)) (map model rows) = Inr (map model df)
      \<and> inverse_transform (fit_encoder (map package df)) (map package rows)
          = Inr (map package df)
      \<and> set (map brand rows) = {0..<card (set (map brand df))}
      \<and> set (map model rows) = {0..<card (set (map model df))}
      \<and> set (map package rows) = {0..<card (set (map package df))}
      \<and> map year rows = map year df \<and> map price rows = map price df"
    by (intro exI [of _ "zip_codes df bs ms ps"] conjI; simp only: cols h(1-4) inv dense)
next
  show "\<forall>v\<in>set vs. \<exists>c. transform (fit_encoder vs) [v] = Inr [c]
                       \<and> inverse_transform (fit_encoder vs) [c] = Inr [v]"
    unfolding transform_single inverse_transform_single using fit_roundtrip by blast
next
  show "{c. \<exists>v\<in>set vs. transform (fit_encoder vs) [v] = Inr [c]} = {0..<card (set vs)}"
    unfolding transform_single by (rule fit_codes_dense)
qed

theorem encode_features_roundtrip_dense_witness:
  "''Toyota'' \<in> set (map brand demo_cars)
   \<and> transform (fit_encoder (map brand demo_cars)) [''Toyota''] = Inr [1]
   \<and> inverse_transform (fit_encoder (map brand demo_cars)) [1] = Inr [''Toyota'']
   \<and> {c. \<exists>v\<in>set (map brand demo_cars).
            transform (fit_encoder (map brand demo_cars)) [v] = Inr [c]} = {0..<2}
   \<and> encode_features demo_cars =
       Inr ([\<lparr>year = 2024, brand = 1, model = 1, package = 0, price = 1250000\<rparr>,
             \<lparr>year = 2023, brand = 0, model = 0, package = 1, price = 1250000\<rparr>,
             \<lparr>year = 2024, brand = 0, model = 0, package = 0, price = 1250000\<rparr>],
            [(''brand'', LabelEncoder [''Honda'', ''Toyota'']),
             (''model'', LabelEncoder [''Civic'', ''Corolla'']),
             (''package'', LabelEncoder [''Dream'', ''Elegance''])])
   \<and> inverse_transform (LabelEncoder [''Honda'', ''Toyota'']) [1, 0, 0]
       = Inr [''Toyota'', ''Honda'', ''Honda'']"
proof -
  have m: "''Toyota'' \<in> set (map brand demo_cars)" by (simp add: demo_cars_def)
  have c: "card (set (map brand demo_cars)) = 2" by (simp add: demo_cars_def)
  have f: "fit_encoder (map brand demo_cars) = LabelEncoder [''Honda'', ''Toyota'']"
    by (simp add: demo_cars_def fit_encoder_def)
  have t: "transform (fit_encoder (map brand demo_cars)) [''Toyota''] = Inr [1]"
    by (simp add: f transform1_def)
  from encode_features_roundtrip_dense [of demo_cars "map brand demo_cars"]
  have r: "\<forall>v\<in>set (map brand demo_cars). \<exists>c. transform (fit_encoder (map brand demo_cars)) [v] = Inr [c]
             \<and> inverse_transform (fit_encoder (map brand demo_cars)) [c] = Inr [v]"
    and d: "{c. \<exists>v\<in>set (map brand demo_cars).
            transform (fit_encoder (map brand demo_cars)) [v] = Inr [c]}
       = {0..<card (set (map brand demo_cars))}"
    and e: "\<exists>rows. encode_features demo_cars =
      Inr (rows,
           [(''brand'', fit_encoder (map brand demo_cars)),
            (''model'', fit_encoder (map model demo_cars)),
            (''package'', fit_encoder (map package demo_cars))])
      \<and> inverse_transform (fit_encoder (map brand demo_cars)) (map brand rows)
          = Inr (map brand demo_cars)"
    by blast+
  from r m t have i: "inverse_transform (fit_encoder (map brand demo_cars)) [1] = Inr [''Toyota'']"
    by fastforce
  from e demo_encode have "inverse_transform (fit_encoder (map brand demo_cars)) [1, 0, 0]
      = Inr (map brand demo_cars)"
    by auto
  then have "inverse_transform (LabelEncoder [''Honda'', ''Toyota'']) [1, 0, 0]
       = Inr [''Toyota'', ''Honda'', ''Honda'']"
    unfolding f by (simp add: demo_cars_def)
  with m t i d demo_encode show ?thesis unfolding c by blast
qed

subsection \<open>The model store\<close>

lemma join2_suffix: "b \<noteq> [] \<Longrightarrow> \<exists>x. join2 a b = x @ b"
  by (auto simp: join2_def intro: exI [of _ "[]"])

lemma norm_path_id: "p \<noteq> [] \<Longrightarrow> last p \<noteq> CHR ''/'' \<Longrightarrow> norm_path p = p"
  by (simp add: norm_path_def)

lemma norm_encoder_path: "norm_path (encoder_path_of q) = encoder_path_of q"
proof -
  obtain x where "encoder_path_of q = x @ ''encoders.pkl''"
    using join2_suffix [of "''encoders.pkl''" "dirname q"] by (auto simp: encoder_path_of_def)
  then show ?thesis by (simp add: norm_path_def)
qed

lemma norm_MODEL_PATH: "norm_path (MODEL_PATH bd) = MODEL_PATH bd"
proof -
  obtain x where "MODEL_PATH bd = x @ ''model.pkl''"
    using join2_suffix [of "''model.pkl''" "join2 bd ''output''"] by (auto simp: MODEL_PATH_def)
  then show ?thesis by (simp add: norm_path_def)
qed

lemma MODEL_PATH_not_encoders: "encoder_path_of q \<noteq> MODEL_PATH bd"
proof
  assume eq: "encoder_path_of q = MODEL_PATH bd"
  obtain x where x: "MODEL_PATH bd = x @ ''model.pkl''"
    using join2_suffix [of "''model.pkl''" "join2 bd ''output''"] by (auto simp: MODEL_PATH_def)
  obtain y where y: "encoder_path_of q = y @ ''encoders.pkl''"
    using join2_suffix [of "''encoders.pkl''" "dirname q"] by (auto simp: encoder_path_of_def)
  from eq x y have "rev (x @ ''model.pkl'') ! 4 = rev (y @ ''encoders.pkl'') ! 4" by simp
  then show False by (simp add: nth_append)
qed

lemma fold_Dir: "a \<in> set as \<or> f a = Some Dir \<Longrightarrow> fold (\<lambda>a f. f(a \<mapsto> Dir)) as f a = Some Dir"
  by (induction as arbitrary: f) auto

lemma makedirs_Dir: "makedirs files d = Inr files0 \<Longrightarrow> files0 d = Some Dir"
  by (auto simp: makedirs_def fold_Dir split: if_splits option.splits node.splits)

lemma save_model_file_Inr:
  assumes "save_model_file files mp mo = Inr files1"
  shows "norm_path mp = mp \<and> files1 mp = Some (File (Pickled mo))"
proof -
  from assms obtain files0 f1 where
    m: "makedirs files (dirname mp) = Inr files0"
    and o: "open_write files0 mp = Inr f1"
    and d: "files1 = dump f1 mp mo"
    by (auto simp: save_model_file_def split: sum.splits)
  have "norm_path mp = mp"
  proof (rule ccontr)
    assume n: "norm_path mp \<noteq> mp"
    then have "norm_path mp = dirname mp" by (simp add: norm_path_def split: if_splits)
    with makedirs_Dir [OF m] o show False by (simp add: open_write_def)
  qed
  with d show ?thesis by (simp add: dump_def)
qed

lemma save_encoders_file_Inr:
  assumes "save_encoders_file files1 ep eo = Inr files2" and "norm_path ep = ep"
  shows "files2 ep = Some (File (Pickled eo)) \<and> (\<forall>q. q \<noteq> ep \<longrightarrow> files2 q = files1 q)"
  using assms
  by (auto simp: save_encoders_file_def open_write_def dump_def
      split: sum.splits option.splits node.splits if_splits)

lemma read_pickle_Inr:
  "read_pickle files p = Inr ob \<longleftrightarrow> files p = Some (File (Pickled ob)) \<and> norm_path p = p"
  by (auto simp: read_pickle_def split: option.splits node.splits content.splits if_splits)

lemma load_model_Inr:
  "load_model bd files path = Inr (a, b) \<longleftrightarrow>
     files (path_or_default bd path) = Some (File (Pickled a))
     \<and> norm_path (path_or_default bd path) = path_or_default bd path
     \<and> files (encoder_path_of (path_or_default bd path)) = Some (File (Pickled b))"
proof
  assume "load_model bd files path = Inr (a, b)"
  then have "read_pickle files (path_or_default bd path) = Inr a"
    "read_pickle files (encoder_path_of (path_or_default bd path)) = Inr b"
    by (auto simp: load_model_def Let_def split: sum.splits)
  then show "files (path_or_default bd path) = Some (File (Pickled a))
     \<and> norm_path (path_or_default bd path) = path_or_default bd path
     \<and> files (encoder_path_of (path_or_default bd path)) = Some (File (Pickled b))"
    by (simp add: read_pickle_Inr)
next
  assume "files (path_or_default bd path) = Some (File (Pickled a))
     \<and> norm_path (path_or_default bd path) = path_or_default bd path
     \<and> files (encoder_path_of (path_or_default bd path)) = Some (File (Pickled b))"
  then have "read_pickle files (path_or_default bd path) = Inr a"
    "read_pickle files (encoder_path_of (path_or_default bd path)) = Inr b"
    by (simp_all add: read_pickle_Inr norm_encoder_path)
  then show "load_model bd files path = Inr (a, b)"
    by (simp add: load_model_def Let_def)
qed

lemma save_then_load:
  assumes "save_model bd files mo eo path = Inr files'"
  shows "load_model bd files' path =
           Inr (if encoder_path_of (path_or_default bd path) = path_or_default bd path
                then eo else mo, eo)"
proof -
  let ?mp = "path_or_default bd path"
  let ?ep = "encoder_path_of ?mp"
  from assms obtain files1 where
    1: "save_model_file files ?mp mo = Inr files1"
    and 2: "save_encoders_file files1 ?ep eo = Inr files'"
    by (auto simp: save_model_def Let_def split: sum.splits)
  note a = save_model_file_Inr [OF 1]
  note b = save_encoders_file_Inr [OF 2 norm_encoder_path]
  show ?thesis
  proof (cases "?ep = ?mp")
    case True
    with a b show ?thesis by (simp add: load_model_Inr)
  next
    case False
    with a b have "files' ?mp = Some (File (Pickled mo))" by auto
    with a b False show ?thesis by (simp add: load_model_Inr)
  qed
qed


lemma more_paths:
  "dirname ''/app/output/model.pkl'' = ''/app/output''"
  "dirname ''/app/output/b.pkl'' = ''/app/output''"
  "dirname ''/app/output/encoders.pkl'' = ''/app/output''"
  "encoder_path_of ''/app/output/b.pkl'' = ''/app/output/encoders.pkl''"
  "encoder_path_of ''/app/output/encoders.pkl'' = ''/app/output/encoders.pkl''"
  "norm_path ''/app/output/model.pkl'' = ''/app/output/model.pkl''"
  "norm_path ''/app/output/b.pkl'' = ''/app/output/b.pkl''"
  "norm_path ''/app/output/encoders.pkl'' = ''/app/output/encoders.pkl''"
  by (simp_all add: encoder_path_of_def join2_def dirname_def norm_path_def)






lemma demo_save_directory:
  "save_model ''/app'' demo_files (ModelObj 2000000) (EncodersObj other_encoders)
     (Some ''/app/output/'') = Inl (IsADirectoryError ''/app/output/'')"
  by (simp add: save_model_def save_model_file_def makedirs_def open_write_def
      path_or_default_def dirname_def norm_path_def demo_files_def demo_dirs_def)

lemma load_default_from_store:
  "files (MODEL_PATH bd) = Some (File (Pickled mo)) \<Longrightarrow>
   files (encoder_path_of (MODEL_PATH bd)) = Some (File (Pickled eo)) \<Longrightarrow>
   load_model bd files None = Inr (mo, eo)"
  by (simp add: load_model_Inr path_or_default_def norm_MODEL_PATH)

lemma load_default_after_save:
  assumes "save_model bd files0 mo eo None = Inr files1"
  shows "load_model bd files1 None = Inr (mo, eo)"
  using save_then_load [OF assms] MODEL_PATH_not_encoders [of "MODEL_PATH bd" bd]
  by (simp add: path_or_default_def)

text \<open>
  C10. \<^verbatim>\<open>predict_price\<close> starts by loading the bundle from the default location.
  An error of \<^verbatim>\<open>load_model\<close> is the result of the call, whatever the brand, model
  and package are; with no model file at the default path that error is
  \<^verbatim>\<open>FileNotFoundError\<close> for the path. When the two files at the default location
  hold a model and encoders under which the brand, model and package have codes, the
  result is the quantized prediction of that model at those codes; in particular, right
  after a completed \<^verbatim>\<open>save_model\<close> to the default location over any earlier store,
  the result is computed from the model and the encoders just saved.
\<close>

theorem predict_price_loads_first:
  "(load_model bd files None = Inl e \<longrightarrow> predict_price bd predict files yr b m p = Inl e)
   \<and> (files (MODEL_PATH bd) = None \<longrightarrow>
        predict_price bd predict files yr b m p = Inl (FileNotFoundError (MODEL_PATH bd)))
   \<and> (files (MODEL_PATH bd) = Some (File (Pickled (ModelObj mo)))
        \<and> files (encoder_path_of (MODEL_PATH bd)) = Some (File (Pickled (EncodersObj encs)))
        \<and> map_of encs ''brand'' = Some le_b \<and> index_of b (classes le_b) = Some cb
        \<and> map_of encs ''model'' = Some le_m \<and> index_of m (classes le_m) = Some cm
        \<and> map_of encs ''package'' = Some le_p \<and> index_of p (classes le_p) = Some cp \<longrightarrow>
        predict_price bd predict files yr b m p = Inr (quantize (predict mo (yr, cb, cm, cp))))
   \<and> (save_model bd files0 (ModelObj mo) (EncodersObj encs) None = Inr files1
        \<and> map_of encs ''brand'' = Some le_b \<and> index_of b (classes le_b) = Some cb
        \<and> map_of encs ''model'' = Some le_m \<and> index_of m (classes le_m) = Some cm
        \<and> map_of encs ''package'' = Some le_p \<and> index_of p (classes le_p) = Some cp \<longrightarrow>
        predict_price bd predict files1 yr b m p = Inr (quantize (predict mo (yr, cb, cm, cp))))"
proof (intro conjI impI)
  assume "load_model bd files None = Inl e"
  then show "predict_price bd predict files yr b m p = Inl e"
    by (simp add: predict_price_def)
next
  assume "files (MODEL_PATH bd) = None"
  then have "load_model bd files None = Inl (FileNotFoundError (MODEL_PATH bd))"
    by (simp add: load_model_def Let_def read_pickle_def path_or_default_def norm_MODEL_PATH)
  then show "predict_price bd predict files yr b m p = Inl (FileNotFoundError (MODEL_PATH bd))"
    by (simp add: predict_price_def)
next
  assume a: "files (MODEL_PATH bd) = Some (File (Pickled (ModelObj mo)))
        \<and> files (encoder_path_of (MODEL_PATH bd)) = Some (File (Pickled (EncodersObj encs)))
        \<and> map_of encs ''brand'' = Some le_b \<and> index_of b (classes le_b) = Some cb
        \<and> map_of encs ''model'' = Some le_m \<and> index_of m (classes le_m) = Some cm
        \<and> map_of encs ''package'' = Some le_p \<and> index_of p (classes le_p) = Some cp"
  then have "load_model bd files None = Inr (ModelObj mo, EncodersObj encs)"
    by (simp add: load_default_from_store)
  with a show "predict_price bd predict files yr b m p
      = Inr (quantize (predict mo (yr, cb, cm, cp)))"
    by (simp add: predict_price_fitted)
next
  assume a: "save_model bd files0 (ModelObj mo) (EncodersObj encs) None = Inr files1
        \<and> map_of encs ''brand'' = Some le_b \<and> index_of b (classes le_b) = Some cb
        \<and> map_of encs ''model'' = Some le_m \<and> index_of m (classes le_m) = Some cm
        \<and> map_of encs ''package'' = Some le_p \<and> index_of p (classes le_p) = Some cp"
  then have "save_model bd files0 (ModelObj mo) (EncodersObj encs) None = Inr files1"
    by simp
  then have "load_model bd files1 None = Inr (ModelObj mo, EncodersObj encs)"
    by (rule load_default_after_save)
  with a show "predict_price bd predict files1 yr b m p
      = Inr (quantize (predict mo (yr, cb, cm, cp)))"
    by (simp add: predict_price_fitted)
qed

lemma demo_save_default:
  "save_model ''/app'' demo_files (ModelObj 2000000) (EncodersObj demo_encoders) None
     = Inr demo_half"
  by (simp add: save_model_def save_model_file_def save_encoders_file_def makedirs_def
      open_write_def dump_def more_paths default_paths path_or_default_def demo_files_def
      demo_dirs_def demo_half_def fun_eq_iff)

lemma demo_codes:
  "map_of demo_encoders ''brand'' = Some (LabelEncoder [''Honda'', ''Toyota''])"
  "map_of demo_encoders ''model'' = Some (LabelEncoder [''Civic'', ''Corolla''])"
  "map_of demo_encoders ''package'' = Some (LabelEncoder [''Dream'', ''Elegance''])"
  by (simp_all add: demo_encoders_def fit_encoder_def)

theorem predict_price_loads_first_witness:
  "predict_price ''/app'' (\<lambda>m f. m) demo_dirs 2024 ''Toyota'' ''Corolla'' ''Nonexistent''
     = Inl (FileNotFoundError ''/app/output/model.pkl'')
   \<and> predict_price ''/app'' (\<lambda>m f. m) demo_files 2024 ''Toyota'' ''Corolla'' ''Dream''
     = Inr 1250000
   \<and> save_model ''/app'' demo_files (ModelObj 2000000) (EncodersObj demo_encoders) None
     = Inr demo_half
   \<and> predict_price ''/app'' (\<lambda>m f. m) demo_half 2024 ''Toyota'' ''Corolla'' ''Dream''
     = Inr 2000000"
proof (intro conjI)
  show "predict_price ''/app'' (\<lambda>m f. m) demo_dirs 2024 ''Toyota'' ''Corolla'' ''Nonexistent''
     = Inl (FileNotFoundError ''/app/output/model.pkl'')"
    using predict_price_loads_first [of "''/app''" demo_dirs _ "\<lambda>m f. m" 2024 "''Toyota''"
        "''Corolla''" "''Nonexistent''"]
    by (simp add: default_paths demo_dirs_def)
  show "predict_price ''/app'' (\<lambda>m f. m) demo_files 2024 ''Toyota'' ''Corolla'' ''Dream''
     = Inr 1250000"
    using predict_price_loads_first [of "''/app''" demo_files _ "\<lambda>m f. m" 2024 "''Toyota''"
        "''Corolla''" "''Dream''" 1254999 demo_encoders "LabelEncoder [''Honda'', ''Toyota'']" 1
        "LabelEncoder [''Civic'', ''Corolla'']" 1 "LabelEncoder [''Dream'', ''Elegance'']" 0]
    by (simp add: default_paths demo_files_def demo_codes quantize_def py_round_def)
  show "save_model ''/app'' demo_files (ModelObj 2000000) (EncodersObj demo_encoders) None
     = Inr demo_half"
    by (rule demo_save_default)
  show "predict_price ''/app'' (\<lambda>m f. m) demo_half 2024 ''Toyota'' ''Corolla'' ''Dream''
     = Inr 2000000"
    using predict_price_loads_first [of "''/app''" _ _ "\<lambda>m f. m" 2024 "''Toyota''"
        "''Corolla''" "''Dream''" 2000000 demo_encoders "LabelEncoder [''Honda'', ''Toyota'']" 1
        "LabelEncoder [''Civic'', ''Corolla'']" 1 "LabelEncoder [''Dream'', ''Elegance'']" 0
        demo_files demo_half] demo_save_default
    by (simp add: demo_codes quantize_def py_round_def)
qed

subsection \<open>Cleaning: duplicates\<close>

lemma keep_first_length: "length (keep_first seen xs) \<le> length xs"
  by (induction xs arbitrary: seen) (auto simp: le_SucI)

lemma keep_first_set: "set (keep_first seen xs) = set xs - set seen"
  by (induction xs arbitrary: seen) auto

lemma keep_first_distinct: "distinct (keep_first seen xs)"
  by (induction xs arbitrary: seen) (auto simp: keep_first_set)

lemma keep_first_id: "distinct xs \<Longrightarrow> set xs \<inter> set seen = {} \<Longrightarrow> keep_first seen xs = xs"
  by (induction xs arbitrary: seen) auto

lemma keep_first_length_eq: "length (keep_first seen xs) = length xs \<Longrightarrow> keep_first seen xs = xs"
proof (induction xs arbitrary: seen)
  case Nil
  then show ?case by simp
next
  case (Cons x xs)
  show ?case
  proof (cases "x \<in> set seen")
    case True
    with Cons.prems keep_first_length [of seen xs] show ?thesis by simp
  next
    case False
    with Cons show ?thesis by simp
  qed
qed

lemma remove_duplicates_eq: "remove_duplicates df = drop_duplicates df"
proof (cases "0 < duplicated_count df")
  case True
  then show ?thesis by (simp add: remove_duplicates_def)
next
  case False
  with keep_first_length [of "[]" df] have "length (keep_first [] df) = length df"
    by (simp add: duplicated_count_def drop_duplicates_def)
  from keep_first_length_eq [OF this] False show ?thesis
    by (simp add: remove_duplicates_def drop_duplicates_def)
qed

lemma drop_duplicates_distinct: "distinct (drop_duplicates df)"
  by (simp add: drop_duplicates_def keep_first_distinct)

lemma drop_duplicates_id: "distinct df \<Longrightarrow> drop_duplicates df = df"
  by (simp add: drop_duplicates_def keep_first_id)

lemma drop_duplicates_set: "set (drop_duplicates df) = set df"
  by (simp add: drop_duplicates_def keep_first_set)

subsection \<open>Cleaning: outliers\<close>

lemma in_bounds_iff: "b \<noteq> None \<Longrightarrow> in_bounds b p \<longleftrightarrow> \<not> is_outlier b p"
  by (auto simp: in_bounds_def is_outlier_def)

lemma remove_outliers_subset: "set (remove_outliers df) \<subseteq> set df"
  by (auto simp: remove_outliers_def)

lemma remove_outliers_distinct: "distinct df \<Longrightarrow> distinct (remove_outliers df)"
  by (simp add: remove_outliers_def)

lemma remove_outliers_id_iff: "remove_outliers df = df \<longleftrightarrow> outlier_count df = 0"
proof
  assume "outlier_count df = 0"
  then show "remove_outliers df = df" by (simp add: remove_outliers_def)
next
  assume eq: "remove_outliers df = df"
  show "outlier_count df = 0"
  proof (rule ccontr)
    assume "outlier_count df \<noteq> 0"
    then have pos: "0 < outlier_count df" by simp
    let ?b = "bounds (map price_int df)"
    from pos obtain p where p: "p \<in> set (map price_int df)" "is_outlier ?b p"
      by (auto simp: outlier_count_def filter_empty_conv)
    then have "?b \<noteq> None" by (auto simp: is_outlier_def split: option.splits)
    with p have "\<not> in_bounds ?b p" by (simp add: in_bounds_iff)
    with p(1) obtain r where "r \<in> set df" "\<not> in_bounds ?b (price_int r)" by auto
    then have "filter (\<lambda>r. in_bounds ?b (price_int r)) df \<noteq> df"
      by (metis (mono_tags, lifting) filter_id_conv)
    with pos eq show False by (simp add: remove_outliers_def)
  qed
qed

subsection \<open>Cleaning: coercion\<close>


lemma astype_int_length: "astype_int cs = Inr is \<Longrightarrow> length is = length cs"
  by (induction cs arbitrary: "is") (auto split: sum.splits)


lemma astype_int_IntV: "astype_int (map IntV is) = Inr is"
  by (induction "is") (auto simp: py_int_def)


subsection \<open>The stages of clean_data\<close>

lemma dropna_cond:
  "(if 0 < sum_list (map null_count df) then dropna df else df) = dropna df"
proof (cases "0 < sum_list (map null_count df)")
  case True
  then show ?thesis by simp
next
  case False
  then have "\<forall>r\<in>set df. null_count r = 0" by (simp add: sum_list_eq_0_iff)
  then show ?thesis by (simp add: dropna_def)
qed

lemma dropna_rows: "r \<in> set (dropna df) \<Longrightarrow> year r \<noteq> Null \<and> price r \<noteq> Null \<and> null_count r = 0"
  by (auto simp: dropna_def null_count_def split: if_splits)

lemma set_year_zip: "set_year df ys = map (\<lambda>(r, y). r\<lparr>year := IntV y\<rparr>) (zip df ys)"
  by (induction df ys rule: set_year.induct) simp_all

lemma set_price_zip: "set_price df ps = map (\<lambda>(r, p). r\<lparr>price := IntV p\<rparr>) (zip df ps)"
  by (induction df ps rule: set_price.induct) simp_all

lemma price_set_year: "length ys = length df \<Longrightarrow> map price (set_year df ys) = map price df"
  by (induction df ys rule: set_year.induct) simp_all

lemma clean_data_unfold:
  "clean_data df =
     (case astype_int (map year (dropna df)) of
        Inl e \<Rightarrow> Inl e
      | Inr ys \<Rightarrow>
          (case astype_int (map price (dropna df)) of
             Inl e \<Rightarrow> Inl e
           | Inr ps \<Rightarrow>
               Inr (drop_duplicates
                      (remove_outliers (set_price (set_year (dropna df) ys) ps)))))"
proof (cases "astype_int (map year (dropna df))")
  case (Inl e)
  then show ?thesis by (simp add: clean_data_def Let_def dropna_cond)
next
  case (Inr ys)
  from astype_int_length [OF Inr] have "length ys = length (dropna df)" by simp
  from price_set_year [OF this] Inr show ?thesis
    by (simp add: clean_data_def Let_def dropna_cond remove_duplicates_eq split: sum.splits)
qed

lemma clean_data_rows:
  assumes "clean_data df = Inr out"
  shows "distinct out
       \<and> (\<forall>r\<in>set out. null_count r = 0 \<and> (\<exists>i. year r = IntV i) \<and> (\<exists>i. price r = IntV i))"
proof -
  from assms obtain ys ps where
    out: "out = drop_duplicates (remove_outliers (set_price (set_year (dropna df) ys) ps))"
    by (auto simp: clean_data_unfold split: sum.splits)
  have "\<forall>r\<in>set (set_price (set_year (dropna df) ys) ps).
          null_count r = 0 \<and> (\<exists>i. year r = IntV i) \<and> (\<exists>i. price r = IntV i)"
  proof
    fix r
    assume "r \<in> set (set_price (set_year (dropna df) ys) ps)"
    then obtain r1 p where r: "r = r1\<lparr>price := IntV p\<rparr>" "r1 \<in> set (set_year (dropna df) ys)"
      by (auto simp: set_price_zip dest: set_zip_leftD)
    then obtain r0 y where r1: "r1 = r0\<lparr>year := IntV y\<rparr>" "r0 \<in> set (dropna df)"
      by (auto simp: set_year_zip dest: set_zip_leftD)
    from dropna_rows [OF r1(2)] r(1) r1(1)
    show "null_count r = 0 \<and> (\<exists>i. year r = IntV i) \<and> (\<exists>i. price r = IntV i)"
      by (simp add: null_count_def split: if_splits)
  qed
  with remove_outliers_subset show ?thesis
    unfolding out by (auto simp: drop_duplicates_distinct drop_duplicates_set)
qed

lemma typed_year_column:
  "\<forall>r\<in>set df. \<exists>i. year r = IntV i \<Longrightarrow>
   \<exists>ys. astype_int (map year df) = Inr ys \<and> set_year df ys = df"
proof (induction df)
  case Nil
  then show ?case by simp
next
  case (Cons r df)
  then obtain ys where "astype_int (map year df) = Inr ys" "set_year df ys = df" by auto
  moreover from Cons.prems obtain i where "year r = IntV i" by auto
  ultimately show ?case by (auto simp: py_int_def)
qed

lemma typed_price_column:
  "\<forall>r\<in>set df. \<exists>i. price r = IntV i \<Longrightarrow>
   \<exists>ps. astype_int (map price df) = Inr ps \<and> set_price df ps = df"
proof (induction df)
  case Nil
  then show ?case by simp
next
  case (Cons r df)
  then obtain ps where "astype_int (map price df) = Inr ps" "set_price df ps = df" by auto
  moreover from Cons.prems obtain i where "price r = IntV i" by auto
  ultimately show ?case by (auto simp: py_int_def)
qed

lemma clean_data_on_clean:
  assumes "distinct df"
    and "\<forall>r\<in>set df. null_count r = 0 \<and> (\<exists>i. year r = IntV i) \<and> (\<exists>i. price r = IntV i)"
  shows "clean_data df = Inr (remove_outliers df)"
proof -
  from assms(2) have "dropna df = df" by (simp add: dropna_def)
  moreover from assms(2) obtain ys where "astype_int (map year df) = Inr ys" "set_year df ys = df"
    using typed_year_column [of df] by auto
  moreover from assms(2) obtain ps where "astype_int (map price df) = Inr ps"
    "set_price df ps = df"
    using typed_price_column [of df] by auto
  ultimately have "clean_data df = Inr (drop_duplicates (remove_outliers df))"
    by (simp add: clean_data_unfold)
  with remove_outliers_distinct [OF assms(1)] show ?thesis
    by (simp add: drop_duplicates_id)
qed

text \<open>
  C5, as the code has it. On the output \<open>Y\<close> of a successful \<^verbatim>\<open>clean_data\<close>, a
  second \<^verbatim>\<open>clean_data\<close> succeeds and does nothing but the outlier stage: no record
  has a missing field, every year and price is an integer already, and no record is a
  duplicate. So the second run returns \<open>Y\<close> again exactly when no price of \<open>Y\<close>
  lies outside the bounds recomputed over \<open>Y\<close>. Duplicate removal on its own is
  idempotent.
\<close>

theorem clean_data_twice:
  "(clean_data X = Inr Y \<longrightarrow>
      clean_data Y = Inr (remove_outliers Y)
      \<and> (clean_data Y = Inr Y \<longleftrightarrow> outlier_count Y = 0))
   \<and> drop_duplicates (drop_duplicates X) = drop_duplicates X"
proof (intro conjI impI)
  assume "clean_data X = Inr Y"
  from clean_data_rows [OF this] have c: "clean_data Y = Inr (remove_outliers Y)"
    by (simp add: clean_data_on_clean)
  then show "clean_data Y = Inr (remove_outliers Y)" .
  from c show "clean_data Y = Inr Y \<longleftrightarrow> outlier_count Y = 0"
    by (simp add: remove_outliers_id_iff)
next
  show "drop_duplicates (drop_duplicates X) = drop_duplicates X"
    by (simp add: drop_duplicates_id drop_duplicates_distinct)
qed

lemma bounds5: "bounds [100000, 200000, 300000, 1000000, 3000000] = Some (- 1000000, 2200000)"
  by (simp add: bounds_def quantile_def Let_def)

lemma bounds4: "bounds [100000, 200000, 300000, 1000000] = Some (- 275000, 925000)"
  by (simp add: bounds_def quantile_def Let_def)

lemma bounds3: "bounds [100000, 200000, 300000] = Some (0, 400000)"
  by (simp add: bounds_def quantile_def Let_def)

lemma clean_iqr_rows: "clean_data iqr_rows = Inr (take 4 iqr_rows)"
  by (simp add: clean_data_def iqr_rows_def raw_def null_count_def py_int_def bounds5
      remove_outliers_def outlier_count_def price_int_def is_outlier_def in_bounds_def
      remove_duplicates_def duplicated_count_def drop_duplicates_def)

lemma clean_iqr_rows4: "clean_data (take 4 iqr_rows) = Inr (take 3 iqr_rows)"
  by (simp add: clean_data_def iqr_rows_def raw_def null_count_def py_int_def bounds4
      remove_outliers_def outlier_count_def price_int_def is_outlier_def in_bounds_def
      remove_duplicates_def duplicated_count_def drop_duplicates_def)

lemma clean_iqr_rows3: "clean_data (take 3 iqr_rows) = Inr (take 3 iqr_rows)"
  by (simp add: clean_data_def iqr_rows_def raw_def null_count_def py_int_def bounds3
      remove_outliers_def outlier_count_def price_int_def is_outlier_def in_bounds_def
      remove_duplicates_def duplicated_count_def drop_duplicates_def)

text \<open>
  C5 as stated fails. On five records with the prices 100000, 200000, 300000, 1000000 and
  3000000 the first run removes the last record (bounds -1000000 and 2200000); on the
  four records left the bounds are -275000 and 925000, and the second run removes one
  more record.
\<close>

theorem clean_data_twice_counterexample:
  "clean_data iqr_rows = Inr (take 4 iqr_rows)
   \<and> clean_data (take 4 iqr_rows) = Inr (take 3 iqr_rows)
   \<and> take 3 iqr_rows \<noteq> take 4 iqr_rows
   \<and> length (take 4 iqr_rows) - length (take 3 iqr_rows) = 1"
  using clean_iqr_rows clean_iqr_rows4 by (simp add: iqr_rows_def)

theorem clean_data_twice_witness:
  "clean_data (take 3 iqr_rows) = Inr (take 3 iqr_rows)
   \<and> outlier_count (take 3 iqr_rows) = 0
   \<and> clean_data (take 4 iqr_rows) = Inr (take 3 iqr_rows)
   \<and> clean_data (take 3 iqr_rows) = Inr (remove_outliers (take 3 iqr_rows))
   \<and> outlier_count (take 4 iqr_rows) \<noteq> 0"
  using clean_data_twice [of "take 3 iqr_rows" "take 3 iqr_rows"]
    clean_data_twice [of iqr_rows "take 4 iqr_rows"]
    clean_iqr_rows3 clean_iqr_rows4 clean_iqr_rows
  by (simp add: iqr_rows_def)





end
